theory Spec2Isabelle
  imports Complex_Main
begin

section \<open>Calendar dates as the code reads them through dayjs\<close>

text \<open>
  A \<open>MarketData.date\<close> is an ISO string \<open>YYYY-MM-DD\<close>; the code only ever reads it
  through \<open>dayjs(item.date)\<close> and the accessors \<open>year()\<close>, \<open>month()\<close>, \<open>date()\<close>,
  \<open>day()\<close>, \<open>week()\<close>, \<open>valueOf()\<close> and \<open>format\<close>.  The model keeps the three
  fields of the string; \<open>mon\<close> is the calendar month 1..12 (dayjs's \<open>month()\<close> is
  \<open>mon - 1\<close>, and every use in the source adds the 1 back or formats with \<open>MM\<close>).
  A JavaScript number is modelled by the real number it stands for; the places where
  the source divides by a number that can be zero, or reads an array out of range, are
  modelled explicitly.  In the aggregator's sums and means and in the anomaly detector
  every arithmetic operation is followed by the rounding \<open>fl\<close> of double precision
  (section on double precision below); the synthesizer and the seasonal pattern
  detector are modelled with exact arithmetic.
\<close>

record ymd =
  yr :: nat
  mon :: nat
  dom :: nat

definition is_leap :: "nat \<Rightarrow> bool" where
  "is_leap y = ((y mod 4 = 0 \<and> y mod 100 \<noteq> 0) \<or> y mod 400 = 0)"

definition days_in_month :: "nat \<Rightarrow> nat \<Rightarrow> nat" where
  "days_in_month y m =
     (if m = 2 then (if is_leap y then 29 else 28)
      else if m = 4 \<or> m = 6 \<or> m = 9 \<or> m = 11 then 30 else 31)"

definition valid_date :: "ymd \<Rightarrow> bool" where
  "valid_date d = (1 \<le> mon d \<and> mon d \<le> 12 \<and> 1 \<le> dom d \<and> dom d \<le> days_in_month (yr d) (mon d))"

text \<open>Days since 1970-01-01 in the proleptic Gregorian calendar.\<close>

definition days_from_civil :: "nat \<Rightarrow> nat \<Rightarrow> nat \<Rightarrow> int" where
  "days_from_civil y m d =
     (let y' = (if m \<le> 2 then int y - 1 else int y);
          era = y' div 400;
          yoe = y' - era * 400;
          mp = (if m > 2 then int m - 3 else int m + 9);
          doy = (153 * mp + 2) div 5 + int d - 1;
          doe = yoe * 365 + yoe div 4 - yoe div 100 + doy
      in era * 146097 + doe - 719468)"

definition day_number :: "ymd \<Rightarrow> int" where
  "day_number d = days_from_civil (yr d) (mon d) (dom d)"

text \<open>\<open>dayjs(d).valueOf()\<close>: milliseconds of the date's midnight (time zone offset left out).\<close>

definition dayjs_valueOf :: "ymd \<Rightarrow> int" where
  "dayjs_valueOf d = day_number d * 86400000"

text \<open>\<open>dayjs(d).day()\<close>: 0 is Sunday; 1970-01-01 was a Thursday.\<close>

definition dayjs_day :: "ymd \<Rightarrow> nat" where
  "dayjs_day d = nat ((day_number d + 4) mod 7)"

text \<open>
  \<open>dayjs(d).week()\<close> of the \<open>weekOfYear\<close> plugin in the default locale (weeks start on
  Sunday, the year starts with the week that holds January 1st).  The plugin returns 1
  for a date after December 25th whose week already holds the next January 1st, and
  otherwise the number of weeks, rounded up, between the last millisecond before the
  Sunday on or before this year's January 1st and the date's midnight.  (The plugin's
  branch for a negative difference is not reached: a date is never before the January
  1st of its own year.)
\<close>

definition dayjs_week :: "ymd \<Rightarrow> nat" where
  "dayjs_week d =
     (let n = day_number d;
          jan1 = days_from_civil (yr d) 1 1;
          nextJan1 = days_from_civil (yr d + 1) 1 1;
          endOfWeek = n + 6 - (n + 4) mod 7
      in if mon d = 12 \<and> dom d > 25 \<and> nextJan1 \<le> endOfWeek then 1
         else nat ((n - jan1 + (jan1 + 4) mod 7) div 7 + 1))"

text \<open>\<open>current.add(1, 'day')\<close>: dayjs objects are immutable, \<open>add\<close> returns a new object.\<close>

definition dayjs_add_day :: "ymd \<Rightarrow> ymd" where
  "dayjs_add_day d =
     (if dom d < days_in_month (yr d) (mon d) then d\<lparr>dom := dom d + 1\<rparr>
      else if mon d < 12 then d\<lparr>mon := mon d + 1, dom := 1\<rparr>
      else \<lparr>yr = yr d + 1, mon = 1, dom = 1\<rparr>)"

text \<open>A JavaScript \<open>Date\<close> argument: a calendar day and the milliseconds since its midnight.\<close>

record instant =
  cal :: ymd
  tod :: nat

definition isBefore :: "instant \<Rightarrow> instant \<Rightarrow> bool" where
  "isBefore a b = (day_number (cal a) < day_number (cal b)
                   \<or> (day_number (cal a) = day_number (cal b) \<and> tod a < tod b))"

definition isSame_day :: "instant \<Rightarrow> instant \<Rightarrow> bool" where
  "isSame_day a b = (day_number (cal a) = day_number (cal b))"

section \<open>Decimal strings\<close>

definition digit_char :: "nat \<Rightarrow> char" where
  "digit_char d = (''0123456789'' ! (d mod 10))"

fun show_nat :: "nat \<Rightarrow> string" where
  "show_nat n = (if n < 10 then [digit_char n] else show_nat (n div 10) @ [digit_char (n mod 10)])"

declare show_nat.simps [simp del]

text \<open>The value of a decimal digit: its position in the digit string (0 for other characters).\<close>

definition digit_val :: "char \<Rightarrow> nat" where
  "digit_val c =
     (let i = length (takeWhile (\<lambda>d. d \<noteq> c) ''0123456789'') in if i < 10 then i else 0)"

definition is_digit :: "char \<Rightarrow> bool" where
  "is_digit c = (c \<in> set ''0123456789'')"

text \<open>\<open>parseInt\<close> on a string of decimal digits.\<close>

definition parse_nat :: "string \<Rightarrow> nat" where
  "parse_nat s = foldl (\<lambda>a c. 10 * a + digit_val c) 0 s"

text \<open>\<open>s.padStart(2, '0')\<close>\<close>

definition padStart2 :: "string \<Rightarrow> string" where
  "padStart2 s = replicate (2 - length s) CHR ''0'' @ s"

text \<open>\<open>dayjs(d).format('MM')\<close>\<close>

definition format_MM :: "ymd \<Rightarrow> string" where
  "format_MM d = padStart2 (show_nat (mon d))"

section \<open>Double precision\<close>

text \<open>
  \<open>fl x\<close> is the double nearest to the real \<open>x\<close>, ties going to the even significand
  (IEEE 754 binary64, round to nearest): 53 significant bits for a normal result
  (binary exponent \<open>e\<close> at least \<open>-1022\<close>, unit in the last place \<open>2^(e - 52)\<close>), and the
  fixed unit \<open>2^-1074\<close> for a subnormal one, so that a small enough result is 0.  The
  sum, difference, product, quotient and square root of doubles are \<open>fl\<close> of the exact
  result.  Overflow is not modelled: a result of magnitude \<open>2^1024\<close> or more is
  \<open>Infinity\<close> in JavaScript and a real number here.
\<close>

definition round_half_even :: "real \<Rightarrow> int" where
  "round_half_even q =
     (let f = \<lfloor>q\<rfloor>; r = q - of_int f
      in if r < 1/2 then f else if r > 1/2 then f + 1 else if even f then f else f + 1)"

definition fl :: "real \<Rightarrow> real" where
  "fl x =
     (if x = 0 then 0
      else (let e = max \<lfloor>log 2 \<bar>x\<bar>\<rfloor> (- 1022); u = 2 powi (e - 52)
            in of_int (round_half_even (x / u)) * u))"

section \<open>Data model (src/types/market.ts)\<close>

datatype VolatilityLevel = Low | Medium | High

datatype Performance = Positive | Negative | Neutral

record MarketData =
  date :: ymd
  volatilityLevel :: VolatilityLevel
  volume :: real
  performance :: Performance
  priceChange :: real
  liquidity :: real

record AggregatedData =
  period :: string
  startDate :: int
  endDate :: int
  avgVolatility :: VolatilityLevel
  totalVolume :: real
  avgPerformance :: Performance
  avgPriceChange :: real
  avgLiquidity :: real

datatype js_error = TypeError

section \<open>The series synthesizer (src/lib/market-utils.ts)\<close>

subsection \<open>weightedRandom\<close>

text \<open>
  The running value \<open>random\<close> is a number or NaN (\<open>None\<close>): \<open>weights[i]\<close> past the end
  of the array is \<open>undefined\<close>, \<open>random - undefined\<close> is NaN, and \<open>NaN <= 0\<close> is false.
  The result is \<open>None\<close> for JavaScript's \<open>undefined\<close> (\<open>items[-1]\<close> of an empty array).
  The first argument is the value returned by \<open>Math.random()\<close>.
\<close>

definition weight_at :: "real list \<Rightarrow> nat \<Rightarrow> real option" where
  "weight_at weights i = (if i < length weights then Some (weights ! i) else None)"

definition js_minus :: "real option \<Rightarrow> real option \<Rightarrow> real option" where
  "js_minus a b = (case (a, b) of (Some x, Some y) \<Rightarrow> Some (x - y) | _ \<Rightarrow> None)"

definition js_le_zero :: "real option \<Rightarrow> bool" where
  "js_le_zero a = (case a of Some x \<Rightarrow> x \<le> 0 | None \<Rightarrow> False)"

definition last_item :: "'a list \<Rightarrow> 'a option" where
  "last_item items = (if items = [] then None else Some (items ! (length items - 1)))"

function weighted_loop :: "'a list \<Rightarrow> real list \<Rightarrow> nat \<Rightarrow> real option \<Rightarrow> 'a option" where
  "weighted_loop items weights i random =
     (if i < length items then
        (let random' = js_minus random (weight_at weights i)
         in if js_le_zero random' then Some (items ! i)
            else weighted_loop items weights (i + 1) random')
      else last_item items)"
  by pat_completeness auto
termination
  by (relation "measure (\<lambda>(items, weights, i, random). length items - i)") auto

declare weighted_loop.simps [simp del]

definition weightedRandom :: "real \<Rightarrow> 'a list \<Rightarrow> real list \<Rightarrow> 'a option" where
  "weightedRandom u items weights =
     (let totalWeight = foldl (\<lambda>sum weight. sum + weight) 0 weights
      in weighted_loop items weights 0 (Some (u * totalWeight)))"

text \<open>The running value after the subtraction of step \<open>i\<close>, written without the loop.\<close>

definition running_value :: "real \<Rightarrow> real list \<Rightarrow> nat \<Rightarrow> real option" where
  "running_value u weights i =
     (if i < length weights then Some (u * sum_list weights - sum_list (take (i + 1) weights))
      else None)"

subsection \<open>generateMockMarketData\<close>

text \<open>The weights chosen in the loop body (lines 22 to 29 of the source).\<close>

definition isMonthEnd :: "ymd \<Rightarrow> bool" where
  "isMonthEnd current = (dom current > 25)"

definition isEarningsSeason :: "ymd \<Rightarrow> bool" where
  "isEarningsSeason current = (mon current \<in> set [1, 4, 7, 10])"

definition volatilityWeights :: "ymd \<Rightarrow> real list" where
  "volatilityWeights current =
     (if isMonthEnd current \<or> isEarningsSeason current then [0.2, 0.4, 0.4] else [0.5, 0.3, 0.2])"

definition item_at :: "'a list \<Rightarrow> int \<Rightarrow> 'a option" where
  "item_at xs i = (if 0 \<le> i \<and> i < int (length xs) then Some (xs ! nat i) else None)"

text \<open>
  The record pushed for one weekday.  \<open>rng\<close> is the sequence of values that successive
  calls of \<open>Math.random()\<close> return and \<open>k\<close> the number of calls made so far; one record
  takes five calls.  \<open>None\<close> stands for a record with an \<open>undefined\<close> category, which
  the type \<open>MarketData\<close> excludes and which does not occur for draws in the unit
  interval (lemma \<open>mock_point_defined\<close>).
\<close>

definition mock_point :: "(nat \<Rightarrow> real) \<Rightarrow> nat \<Rightarrow> ymd \<Rightarrow> MarketData option" where
  "mock_point rng k current =
     (let volatilityLevels = [Low, Medium, High];
          performances = [Positive, Negative, Neutral]
      in case weightedRandom (rng k) volatilityLevels (volatilityWeights current) of
           None \<Rightarrow> None
         | Some vl \<Rightarrow>
            (case item_at performances \<lfloor>rng (k + 1) * real (length performances)\<rfloor> of
               None \<Rightarrow> None
             | Some pf \<Rightarrow>
                Some \<lparr>date = current, volatilityLevel = vl,
                      volume = of_int \<lfloor>rng (k + 2) * 1000000\<rfloor> + 100000,
                      performance = pf,
                      priceChange = (rng (k + 3) - 0.5) * 10,
                      liquidity = of_int \<lfloor>rng (k + 4) * 100\<rfloor> + 1\<rparr>))"

text \<open>
  The \<open>while\<close> loop.  \<open>current\<close> is a \<open>const\<close>; the source calls
  \<open>current.add(1, 'day')\<close> at the end of the body and drops the object it returns, so
  the next iteration runs with the same \<open>current\<close>.  A run that never leaves the loop
  has the value \<open>None\<close>.
\<close>

partial_function (option) gen_loop ::
  "(nat \<Rightarrow> real) \<Rightarrow> instant \<Rightarrow> instant \<Rightarrow> MarketData list \<Rightarrow> nat \<Rightarrow> MarketData list option" where
  "gen_loop rng current end' data k =
     (if isBefore current end' \<or> isSame_day current end' then
        (let dayOfWeek = dayjs_day (cal current);
             isWeekend = (dayOfWeek = 0 \<or> dayOfWeek = 6);
             dropped = dayjs_add_day (cal current)
         in if \<not> isWeekend then
              (case mock_point rng k (cal current) of
                 Some p \<Rightarrow> gen_loop rng current end' (data @ [p]) (k + 5)
               | None \<Rightarrow> None)
            else gen_loop rng current end' data k)
      else Some data)"

definition generateMockMarketData :: "(nat \<Rightarrow> real) \<Rightarrow> instant \<Rightarrow> instant \<Rightarrow> MarketData list option" where
  "generateMockMarketData rng start_date end_date = gen_loop rng start_date end_date [] 0"

section \<open>The temporal aggregator (src/lib/market-utils.ts)\<close>

subsection \<open>Objects used as dictionaries\<close>

text \<open>
  A plain object whose values are arrays is an association list in insertion order.
  \<open>push_group k v\<close> is \<open>if (!groups[k]) groups[k] = []; groups[k].push(v)\<close>.
\<close>

fun push_group :: "'k \<Rightarrow> 'v \<Rightarrow> ('k \<times> 'v list) list \<Rightarrow> ('k \<times> 'v list) list" where
  "push_group k v [] = [(k, [v])]"
| "push_group k v ((k', vs) # rest) =
     (if k = k' then (k', vs @ [v]) # rest else (k', vs) # push_group k v rest)"

text \<open>
  \<open>Object.entries\<close> lists the keys that are array indices (canonical decimal strings
  below \<open>2^32 - 1\<close>) first, in ascending numeric order, and then the other string keys
  in insertion order.
\<close>

definition is_array_index :: "string \<Rightarrow> bool" where
  "is_array_index s =
     (s \<noteq> [] \<and> list_all is_digit s \<and> show_nat (parse_nat s) = s \<and> parse_nat s < 4294967295)"

definition object_entries :: "(string \<times> 'v) list \<Rightarrow> (string \<times> 'v) list" where
  "object_entries obj =
     sort_key (\<lambda>e. parse_nat (fst e)) (filter (\<lambda>e. is_array_index (fst e)) obj)
     @ filter (\<lambda>e. \<not> is_array_index (fst e)) obj"

subsection \<open>getMostFrequentVolatility and getMostFrequentPerformance\<close>

text \<open>\<open>acc[k] = (acc[k] || 0) + 1\<close> on an object whose keys keep their insertion order.\<close>

fun bump :: "'k \<Rightarrow> ('k \<times> nat) list \<Rightarrow> ('k \<times> nat) list" where
  "bump k [] = [(k, 1)]"
| "bump k ((k', n) # rest) = (if k = k' then (k', n + 1) # rest else (k', n) # bump k rest)"

text \<open>\<open>counts[a] > counts[b]\<close>; a comparison with \<open>undefined\<close> is false.\<close>

definition count_gt :: "('k \<times> nat) list \<Rightarrow> 'k \<Rightarrow> 'k \<Rightarrow> bool" where
  "count_gt counts a b =
     (case (map_of counts a, map_of counts b) of (Some m, Some n) \<Rightarrow> m > n | _ \<Rightarrow> False)"

text \<open>\<open>Array.prototype.reduce\<close> without an initial value: a TypeError on the empty array.\<close>

definition reduce1 :: "('a \<Rightarrow> 'a \<Rightarrow> 'a) \<Rightarrow> 'a list \<Rightarrow> js_error + 'a" where
  "reduce1 f xs = (case xs of [] \<Rightarrow> Inl TypeError | x # rest \<Rightarrow> Inr (foldl f x rest))"

text \<open>
  The two functions of the source have the same body up to the field they read; the
  keys \<open>low\<close>, \<open>medium\<close>, \<open>high\<close> (and \<open>positive\<close>, \<open>negative\<close>, \<open>neutral\<close>) are no array
  indices, so \<open>Object.entries(counts)\<close> is the insertion order.
\<close>

definition most_frequent_by :: "('a \<Rightarrow> 'k) \<Rightarrow> 'a list \<Rightarrow> js_error + 'k" where
  "most_frequent_by field data =
     (let counts = foldl (\<lambda>acc item. bump (field item) acc) [] data
      in case reduce1 (\<lambda>a b. if count_gt counts (fst a) (fst b) then a else b) counts of
           Inl e \<Rightarrow> Inl e
         | Inr entry \<Rightarrow> Inr (fst entry))"

definition getMostFrequentVolatility :: "MarketData list \<Rightarrow> js_error + VolatilityLevel" where
  "getMostFrequentVolatility data = most_frequent_by volatilityLevel data"

definition getMostFrequentPerformance :: "MarketData list \<Rightarrow> js_error + Performance" where
  "getMostFrequentPerformance data = most_frequent_by performance data"

text \<open>Position of the first occurrence of a value (the length of the list if there is none).\<close>

definition first_index :: "'a list \<Rightarrow> 'a \<Rightarrow> nat" where
  "first_index xs x = length (takeWhile (\<lambda>y. y \<noteq> x) xs)"

subsection \<open>aggregateDataByWeek and aggregateDataByMonth\<close>

definition weekKey :: "nat \<Rightarrow> nat \<Rightarrow> string" where
  "weekKey year w = show_nat year @ ''-W'' @ show_nat w"

definition monthKey :: "nat \<Rightarrow> nat \<Rightarrow> string" where
  "monthKey year m = show_nat year @ ''-'' @ padStart2 (show_nat m)"

definition weekGroups :: "MarketData list \<Rightarrow> nat \<Rightarrow> (string \<times> MarketData list) list" where
  "weekGroups data year =
     foldl (\<lambda>groups item.
              if yr (date item) \<noteq> year then groups
              else push_group (weekKey year (dayjs_week (date item))) item groups) [] data"

definition monthGroups :: "MarketData list \<Rightarrow> nat \<Rightarrow> (string \<times> MarketData list) list" where
  "monthGroups data year =
     foldl (\<lambda>groups item.
              if yr (date item) \<noteq> year then groups
              else push_group (monthKey year (mon (date item))) item groups) [] data"

text \<open>
  The callback of \<open>Object.entries(groups).map\<close>, the same in both functions.  On an
  empty bucket \<open>getMostFrequentVolatility\<close> raises (nothing before it does:
  \<open>Math.min()\<close> of no arguments is \<open>Infinity\<close>), so the record is built for a non-empty
  bucket only: there \<open>timestamps\<close> has a head, \<open>Math.min(...timestamps)\<close> is the fold of
  \<open>min\<close> over it, and the lengths in the two divisions are positive.  The three
  \<open>reduce\<close> calls add doubles from left to right, starting from 0.
\<close>

definition summarize :: "string \<times> MarketData list \<Rightarrow> js_error + AggregatedData" where
  "summarize entry =
     (let period = fst entry; bucket = snd entry;
          timestamps = map (\<lambda>d. dayjs_valueOf (date d)) bucket
      in case getMostFrequentVolatility bucket of
           Inl e \<Rightarrow> Inl e
         | Inr vol \<Rightarrow>
            (case getMostFrequentPerformance bucket of
               Inl e \<Rightarrow> Inl e
             | Inr perf \<Rightarrow>
                Inr \<lparr>period = period,
                     startDate = foldl min (hd timestamps) (tl timestamps),
                     endDate = foldl max (hd timestamps) (tl timestamps),
                     avgVolatility = vol,
                     totalVolume = foldl (\<lambda>sum d. fl (sum + volume d)) 0 bucket,
                     avgPerformance = perf,
                     avgPriceChange =
                       fl (foldl (\<lambda>sum d. fl (sum + priceChange d)) 0 bucket / real (length bucket)),
                     avgLiquidity =
                       fl (foldl (\<lambda>sum d. fl (sum + liquidity d)) 0 bucket / real (length bucket))\<rparr>))"

fun map_result :: "('a \<Rightarrow> 'e + 'b) \<Rightarrow> 'a list \<Rightarrow> 'e + 'b list" where
  "map_result f [] = Inr []"
| "map_result f (x # xs) =
     (case f x of
        Inl e \<Rightarrow> Inl e
      | Inr y \<Rightarrow> (case map_result f xs of Inl e \<Rightarrow> Inl e | Inr ys \<Rightarrow> Inr (y # ys)))"

definition aggregateDataByWeek :: "MarketData list \<Rightarrow> nat \<Rightarrow> js_error + AggregatedData list" where
  "aggregateDataByWeek data year = map_result summarize (object_entries (weekGroups data year))"

definition aggregateDataByMonth :: "MarketData list \<Rightarrow> nat \<Rightarrow> js_error + AggregatedData list" where
  "aggregateDataByMonth data year = map_result summarize (object_entries (monthGroups data year))"

text \<open>Notions used to state properties of the aggregator.\<close>

definition in_year :: "nat \<Rightarrow> MarketData list \<Rightarrow> MarketData list" where
  "in_year year data = filter (\<lambda>p. yr (date p) = year) data"

definition date_le :: "ymd \<Rightarrow> ymd \<Rightarrow> bool" where
  "date_le a b =
     (yr a < yr b \<or> (yr a = yr b \<and> (mon a < mon b \<or> (mon a = mon b \<and> dom a \<le> dom b))))"

definition first_occurrences :: "'a list \<Rightarrow> 'a list" where
  "first_occurrences xs = rev (remdups (rev xs))"

section \<open>Pattern analysis (src/components/PatternAnalysis.tsx)\<close>

text \<open>
  The result of a JavaScript division whose divisor can be zero: a number, an infinity
  or NaN.  A comparison with NaN is false.
\<close>

datatype jsnum = Num real | PosInf | NegInf | NaN

definition js_div :: "real \<Rightarrow> real \<Rightarrow> jsnum" where
  "js_div a b =
     (if b \<noteq> 0 then Num (a / b) else if a > 0 then PosInf else if a < 0 then NegInf else NaN)"

text \<open>The same division on doubles: the quotient is rounded.\<close>

definition fdiv :: "real \<Rightarrow> real \<Rightarrow> jsnum" where
  "fdiv a b =
     (if b \<noteq> 0 then Num (fl (a / b)) else if a > 0 then PosInf else if a < 0 then NegInf else NaN)"

fun js_gt :: "jsnum \<Rightarrow> real \<Rightarrow> bool" where
  "js_gt (Num x) c = (x > c)"
| "js_gt PosInf c = True"
| "js_gt NegInf c = False"
| "js_gt NaN c = False"

subsection \<open>seasonalPatterns\<close>

datatype PatternType = Bullish | Bearish | Volatile | Stable

text \<open>The \<open>description\<close> strings (built with \<open>toFixed\<close>) are left out of both records.\<close>

record SeasonalPattern =
  pattern_type :: PatternType
  pattern_period :: string
  strength :: real
  frequency :: nat

definition monthlyData :: "MarketData list \<Rightarrow> (string \<times> MarketData list) list" where
  "monthlyData marketData =
     foldl (\<lambda>acc d. push_group (format_MM (date d)) d acc) [] marketData"

definition month_patterns :: "string \<times> MarketData list \<Rightarrow> SeasonalPattern list" where
  "month_patterns entry =
     (let month = fst entry; data = snd entry
      in if length data < 3 then []
         else
           (let avgChange = foldl (\<lambda>sum d. sum + priceChange d) 0 data / real (length data);
                volatilityCount = length (filter (\<lambda>d. volatilityLevel d = High) data);
                volatilityRatio = real volatilityCount / real (length data)
            in (if \<bar>avgChange\<bar> > 2
                then [\<lparr>pattern_type = (if avgChange > 0 then Bullish else Bearish),
                       pattern_period = ''Month '' @ month,
                       strength = min 100 (\<bar>avgChange\<bar> * 20),
                       frequency = length data\<rparr>]
                else [])
               @ (if volatilityRatio > 0.6
                  then [\<lparr>pattern_type = Volatile,
                         pattern_period = ''Month '' @ month,
                         strength = volatilityRatio * 100,
                         frequency = length data\<rparr>]
                  else [])))"

definition weeklyData :: "MarketData list \<Rightarrow> (string \<times> MarketData list) list" where
  "weeklyData marketData =
     foldl (\<lambda>acc d. push_group (show_nat (dayjs_day (date d))) d acc) [] marketData"

definition dayNames :: "string list" where
  "dayNames = [''Sunday'', ''Monday'', ''Tuesday'', ''Wednesday'', ''Thursday'', ''Friday'', ''Saturday'']"

text \<open>\<open>dayNames[parseInt(day)]\<close>; the keys are the results of \<open>day()\<close>, all below 7.\<close>

definition dayName :: "string \<Rightarrow> string" where
  "dayName day = (if parse_nat day < length dayNames then dayNames ! parse_nat day else ''undefined'')"

text \<open>\<open>Math.min(100, (volumeRatio - 1) * 100)\<close> for a ratio that passed \<open>volumeRatio > 1.3\<close>.\<close>

fun ratio_strength :: "jsnum \<Rightarrow> real" where
  "ratio_strength (Num r) = min 100 ((r - 1) * 100)"
| "ratio_strength PosInf = 100"
| "ratio_strength NegInf = 0"
| "ratio_strength NaN = 0"

definition weekday_patterns :: "MarketData list \<Rightarrow> string \<times> MarketData list \<Rightarrow> SeasonalPattern list" where
  "weekday_patterns marketData entry =
     (let day = fst entry; data = snd entry
      in if length data < 3 then []
         else
           (let avgChange = foldl (\<lambda>sum d. sum + priceChange d) 0 data / real (length data);
                avgVolume = foldl (\<lambda>sum d. sum + volume d) 0 data / real (length data);
                overallAvgVolume =
                  foldl (\<lambda>sum d. sum + volume d) 0 marketData / real (length marketData);
                volumeRatio = js_div avgVolume overallAvgVolume
            in (if \<bar>avgChange\<bar> > 1.5
                then [\<lparr>pattern_type = (if avgChange > 0 then Bullish else Bearish),
                       pattern_period = dayName day,
                       strength = min 100 (\<bar>avgChange\<bar> * 30),
                       frequency = length data\<rparr>]
                else [])
               @ (if js_gt volumeRatio 1.3
                  then [\<lparr>pattern_type = Volatile,
                         pattern_period = dayName day,
                         strength = ratio_strength volumeRatio,
                         frequency = length data\<rparr>]
                  else [])))"

text \<open>The array \<open>patterns\<close> after the two \<open>forEach\<close> passes, before sorting and slicing.\<close>

definition pooled_patterns :: "MarketData list \<Rightarrow> SeasonalPattern list" where
  "pooled_patterns marketData =
     concat (map month_patterns (object_entries (monthlyData marketData)))
     @ concat (map (weekday_patterns marketData) (object_entries (weeklyData marketData)))"

text \<open>\<open>sort((a, b) => b.strength - a.strength)\<close> is a stable sort by descending strength.\<close>

definition seasonalPatterns :: "MarketData list \<Rightarrow> SeasonalPattern list" where
  "seasonalPatterns marketData =
     (if length marketData < 30 then []
      else take 6 (sort_key (\<lambda>p. - strength p) (pooled_patterns marketData)))"

subsection \<open>anomalies\<close>

datatype AnomalyType = VolumeSpike | VolatilitySpike | PriceGap

datatype Severity = SevLow | SevMedium | SevHigh

record Anomaly =
  anomaly_date :: ymd
  anomaly_type :: AnomalyType
  severity :: Severity
  anomaly_value :: real

text \<open>
  The statistics of the series, in double precision.  \<open>Math.pow(x, 2)\<close> is taken as
  the rounded square and \<open>Math.sqrt\<close> as the rounded square root.
\<close>

definition avgVolume :: "MarketData list \<Rightarrow> real" where
  "avgVolume marketData =
     fl (foldl (\<lambda>sum d. fl (sum + volume d)) 0 marketData / real (length marketData))"

definition volumeStdDev :: "MarketData list \<Rightarrow> real" where
  "volumeStdDev marketData =
     fl (sqrt (fl (foldl (\<lambda>sum d. fl (sum + fl ((fl (volume d - avgVolume marketData))\<^sup>2))) 0 marketData
                   / real (length marketData))))"

definition priceChanges :: "MarketData list \<Rightarrow> real list" where
  "priceChanges marketData = map (\<lambda>d. \<bar>priceChange d\<bar>) marketData"

definition avgPriceChangeAbs :: "MarketData list \<Rightarrow> real" where
  "avgPriceChangeAbs marketData =
     fl (foldl (\<lambda>sum c. fl (sum + c)) 0 (priceChanges marketData)
         / real (length (priceChanges marketData)))"

definition priceChangeStdDev :: "MarketData list \<Rightarrow> real" where
  "priceChangeStdDev marketData =
     fl (sqrt (fl (foldl (\<lambda>sum c. fl (sum + fl ((fl (c - avgPriceChangeAbs marketData))\<^sup>2))) 0
                     (priceChanges marketData)
                   / real (length (priceChanges marketData)))))"

definition volumeZScore :: "MarketData list \<Rightarrow> MarketData \<Rightarrow> jsnum" where
  "volumeZScore marketData data =
     fdiv (fl (volume data - avgVolume marketData)) (volumeStdDev marketData)"

text \<open>The three rules of the \<open>forEach\<close> body, each pushing at most one anomaly.\<close>

definition volume_rule :: "MarketData list \<Rightarrow> MarketData \<Rightarrow> Anomaly list" where
  "volume_rule marketData data =
     (let z = volumeZScore marketData data
      in if js_gt z 2
         then [\<lparr>anomaly_date = date data, anomaly_type = VolumeSpike,
                severity = (if js_gt z 3 then SevHigh else if js_gt z 2.5 then SevMedium else SevLow),
                anomaly_value = volume data\<rparr>]
         else [])"

definition volatility_rule :: "MarketData list \<Rightarrow> MarketData \<Rightarrow> Anomaly list" where
  "volatility_rule marketData data =
     (if volatilityLevel data = High
         \<and> \<bar>priceChange data\<bar>
             > fl (avgPriceChangeAbs marketData + fl (2 * priceChangeStdDev marketData))
      then [\<lparr>anomaly_date = date data, anomaly_type = VolatilitySpike,
             severity = (if \<bar>priceChange data\<bar>
                              > fl (avgPriceChangeAbs marketData + fl (3 * priceChangeStdDev marketData))
                         then SevHigh else SevMedium),
             anomaly_value = \<bar>priceChange data\<bar>\<rparr>]
      else [])"

definition gap_rule :: "MarketData list \<Rightarrow> nat \<Rightarrow> Anomaly list" where
  "gap_rule marketData index =
     (if index > 0 then
        (let data = marketData ! index; prevData = marketData ! (index - 1);
             gap = \<bar>fl (priceChange data - priceChange prevData)\<bar>
         in if gap > 5
            then [\<lparr>anomaly_date = date data, anomaly_type = PriceGap,
                   severity = (if gap > 10 then SevHigh else if gap > 7 then SevMedium else SevLow),
                   anomaly_value = gap\<rparr>]
            else [])
      else [])"

definition detect :: "MarketData list \<Rightarrow> nat \<Rightarrow> Anomaly list" where
  "detect marketData index =
     volume_rule marketData (marketData ! index)
     @ volatility_rule marketData (marketData ! index)
     @ gap_rule marketData index"

text \<open>The array \<open>anomalies\<close> after the \<open>forEach\<close>, before sorting and slicing.\<close>

definition flagged :: "MarketData list \<Rightarrow> Anomaly list" where
  "flagged marketData = concat (map (detect marketData) [0..<length marketData])"

text \<open>The sort is stable and puts the most recent date first.\<close>

definition anomalies :: "MarketData list \<Rightarrow> Anomaly list" where
  "anomalies marketData =
     (if length marketData < 10 then []
      else take 10 (sort_key (\<lambda>a. - dayjs_valueOf (anomaly_date a)) (flagged marketData)))"

section \<open>Auxiliary notions and sample inputs\<close>

text \<open>The last five days of a calendar month, in the words of the specification.\<close>

definition in_last_five_days :: "ymd \<Rightarrow> bool" where
  "in_last_five_days d = (days_in_month (yr d) (mon d) < dom d + 5)"

definition quarter_opening_month :: "ymd \<Rightarrow> bool" where
  "quarter_opening_month d = (mon d = 1 \<or> mon d = 4 \<or> mon d = 7 \<or> mon d = 10)"

text \<open>The running value of \<open>weightedRandom\<close> before the subtraction of step \<open>i\<close>.\<close>

definition running_before :: "real \<Rightarrow> real list \<Rightarrow> nat \<Rightarrow> real option" where
  "running_before u weights i =
     (if i \<le> length weights then Some (u * sum_list weights - sum_list (take i weights)) else None)"

text \<open>The object \<open>counts\<close> built from the sequence of category values of a bucket.\<close>

definition tally :: "'k list \<Rightarrow> ('k \<times> nat) list" where
  "tally ks = foldl (\<lambda>acc k. bump k acc) [] ks"

text \<open>The first week of the repository's own test data (market-utils.test.ts).\<close>

definition test_bucket :: "MarketData list" where
  "test_bucket =
     [\<lparr>date = \<lparr>yr = 2024, mon = 1, dom = 1\<rparr>, volatilityLevel = Low, volume = 1000,
       performance = Positive, priceChange = 2.5, liquidity = 80\<rparr>,
      \<lparr>date = \<lparr>yr = 2024, mon = 1, dom = 2\<rparr>, volatilityLevel = High, volume = 1500,
       performance = Negative, priceChange = -1.5, liquidity = 70\<rparr>]"

text \<open>The buckets built by the \<open>reduce\<close> calls, without the year filter.\<close>

definition grouping :: "('a \<Rightarrow> 'k) \<Rightarrow> 'a list \<Rightarrow> ('k \<times> 'a list) list" where
  "grouping key xs = foldl (\<lambda>groups x. push_group (key x) x groups) [] xs"

text \<open>Sample series.\<close>

definition pt :: "nat \<Rightarrow> nat \<Rightarrow> nat \<Rightarrow> real \<Rightarrow> real \<Rightarrow> MarketData" where
  "pt y m d v c = \<lparr>date = \<lparr>yr = y, mon = m, dom = d\<rparr>, volatilityLevel = Low, volume = v,
                   performance = Neutral, priceChange = c, liquidity = 50\<rparr>"

definition december_series :: "MarketData list" where
  "december_series = [pt 2024 12 23 1000 0, pt 2024 12 30 1000 0]"

definition test_months :: "MarketData list" where
  "test_months =
     [\<lparr>date = \<lparr>yr = 2024, mon = 1, dom = 15\<rparr>, volatilityLevel = Low, volume = 1000,
       performance = Positive, priceChange = 2.5, liquidity = 80\<rparr>,
      \<lparr>date = \<lparr>yr = 2024, mon = 1, dom = 20\<rparr>, volatilityLevel = High, volume = 1500,
       performance = Negative, priceChange = -1.5, liquidity = 70\<rparr>,
      \<lparr>date = \<lparr>yr = 2024, mon = 2, dom = 5\<rparr>, volatilityLevel = Medium, volume = 1200,
       performance = Positive, priceChange = 1.0, liquidity = 75\<rparr>]"

definition p0 :: MarketData where
  "p0 = pt 2024 1 2 1000 0"

definition series_z2 :: "MarketData list" where
  "series_z2 = [pt 2024 1 1 0 0, pt 2024 1 2 0 0, pt 2024 1 3 0 0, pt 2024 1 4 0 0, pt 2024 1 5 0 0,
                pt 2024 1 8 0 0, pt 2024 1 9 0 0, pt 2024 1 10 0 0, pt 2024 1 11 10 0, pt 2024 1 12 10 0]"

definition series_z201 :: "MarketData list" where
  "series_z201 = [pt 2024 1 1 1203 0, pt 2024 1 2 1025 0, pt 2024 1 3 41 0, pt 2024 1 4 608 0,
                  pt 2024 1 5 458 0, pt 2024 1 8 548 0, pt 2024 1 9 518 0, pt 2024 1 10 542 0,
                  pt 2024 1 11 524 0, pt 2024 1 12 533 0]"

text \<open>
  Doubles with a fraction.  \<open>tenth\<close> is the double written \<open>0.1\<close> and \<open>two_fifths\<close> the
  double written \<open>0.4\<close>; \<open>tiny_volume\<close> is \<open>tenth\<close> scaled by \<open>2^-600\<close>, a normal double
  of about \<open>2.4e-182\<close>.
\<close>

definition tenth :: real where
  "tenth = 7205759403792794 * 2 powi (- 56)"

definition two_fifths :: real where
  "two_fifths = 7205759403792794 * 2 powi (- 54)"

definition tiny_volume :: real where
  "tiny_volume = 7205759403792794 * 2 powi (- 656)"

definition fraction_series :: "MarketData list" where
  "fraction_series = [pt 2024 1 15 tenth 0, pt 2024 2 5 tenth 0, pt 2024 2 6 two_fifths 0]"

definition tiny_series :: "MarketData list" where
  "tiny_series =
     [pt 2024 1 1 tiny_volume 0, pt 2024 1 2 tiny_volume 0, pt 2024 1 3 tiny_volume 0,
      pt 2024 1 4 tiny_volume 0, pt 2024 1 5 tiny_volume 0, pt 2024 1 8 tiny_volume 0,
      pt 2024 1 9 tiny_volume 0, pt 2024 1 10 tiny_volume 0, pt 2024 1 11 tiny_volume 0,
      pt 2024 1 12 tiny_volume 0]"

text \<open>
  Two series of 30 points for the pattern detector.  The first has three January points,
  one in each of the years 2023 to 2025, with price change 3 and 27 points of February
  2024 with price change 0; the second has the first 15 days of January 2023 and of
  January 2024, all with price change 3.
\<close>

definition january_series :: "MarketData list" where
  "january_series =
     [pt 2023 1 2 1000 3, pt 2024 1 2 1000 3,
      pt 2024 2 1 1000 0, pt 2024 2 2 1000 0, pt 2024 2 3 1000 0, pt 2024 2 4 1000 0,
      pt 2024 2 5 1000 0, pt 2024 2 6 1000 0, pt 2024 2 7 1000 0, pt 2024 2 8 1000 0,
      pt 2024 2 9 1000 0, pt 2024 2 10 1000 0, pt 2024 2 11 1000 0, pt 2024 2 12 1000 0,
      pt 2024 2 13 1000 0, pt 2024 2 14 1000 0, pt 2024 2 15 1000 0, pt 2024 2 16 1000 0,
      pt 2024 2 17 1000 0, pt 2024 2 18 1000 0, pt 2024 2 19 1000 0, pt 2024 2 20 1000 0,
      pt 2024 2 21 1000 0, pt 2024 2 22 1000 0, pt 2024 2 23 1000 0, pt 2024 2 24 1000 0,
      pt 2024 2 25 1000 0, pt 2024 2 26 1000 0, pt 2024 2 27 1000 0,
      pt 2025 1 2 1000 3]"


section \<open>Properties of the rounding\<close>

lemma round_half_even_int [simp]: "round_half_even (of_int k) = k"
  by (simp add: round_half_even_def)

lemma round_half_even_zero [simp]: "round_half_even 0 = 0"
  using round_half_even_int[of 0] by simp

lemma round_half_even_minus: "round_half_even (- q) = - round_half_even q"
proof (cases "q \<in> \<int>")
  case True
  then obtain k where "q = of_int k" by (auto elim: Ints_cases)
  then show ?thesis
    by (metis of_int_minus round_half_even_int)
next
  case False
  then have fm: "\<lfloor>- q\<rfloor> = - \<lfloor>q\<rfloor> - 1"
    by (metis Ints_of_int ceiling_def ceiling_altdef add_uminus_conv_diff minus_add_distrib minus_minus floor_minus)
  define f where "f = \<lfloor>q\<rfloor>"
  have r: "0 < q - of_int f" "q - of_int f < 1"
    using False unfolding f_def
    by (metis Ints_of_int diff_gt_0_iff_gt less_eq_real_def of_int_floor_le, linarith)
  show ?thesis
    unfolding round_half_even_def Let_def fm f_def[symmetric]
    using r by (auto simp: field_simps)
qed

lemma fl_zero [simp]: "fl 0 = 0"
  by (simp add: fl_def)

lemma fl_minus: "fl (- x) = - fl x"
  by (simp add: fl_def Let_def round_half_even_minus)

lemma two_powr_int: "(2::real) powr real_of_int k = 2 powi k"
  by (simp add: powr_real_of_int')

lemma floor_log2: "2 powi e \<le> \<bar>x\<bar> \<Longrightarrow> \<bar>x\<bar> < 2 powi (e + 1) \<Longrightarrow> \<lfloor>log 2 \<bar>x\<bar>\<rfloor> = e"
proof -
  assume a: "2 powi e \<le> \<bar>x\<bar>" "\<bar>x\<bar> < 2 powi (e + 1)"
  have pos: "0 < \<bar>x\<bar>" using a(1) by (smt (verit) zero_less_power_int)
  have "2 powr real_of_int e \<le> \<bar>x\<bar>" "\<bar>x\<bar> < 2 powr real_of_int (e + 1)"
    using a by (simp_all only: two_powr_int)
  then have "2 powr real_of_int e \<le> \<bar>x\<bar> \<and> \<bar>x\<bar> < 2 powr (real_of_int e + 1)"
    by simp
  then show ?thesis
    using floor_log_eq_powr_iff[of "\<bar>x\<bar>" 2 e] pos by simp
qed

lemma fl_normal:
  assumes "2 powi e \<le> \<bar>x\<bar>" and "\<bar>x\<bar> < 2 powi (e + 1)" and "- 1022 \<le> e"
  shows "fl x = of_int (round_half_even (x / 2 powi (e - 52))) * 2 powi (e - 52)"
proof -
  have "x \<noteq> 0" using assms(1) by (smt (verit) zero_less_power_int abs_zero)
  then show ?thesis
    using floor_log2[OF assms(1,2)] assms(3) by (simp add: fl_def Let_def max_def)
qed

lemma fl_subnormal:
  assumes "\<bar>x\<bar> < 2 powi (- 1022)"
  shows "fl x = of_int (round_half_even (x / 2 powi (- 1074))) * 2 powi (- 1074)"
proof (cases "x = 0")
  case True
  then show ?thesis by simp
next
  case False
  then have pos: "0 < \<bar>x\<bar>" by simp
  have "\<lfloor>log 2 \<bar>x\<bar>\<rfloor> < - 1022"
  proof (rule ccontr)
    assume "\<not> \<lfloor>log 2 \<bar>x\<bar>\<rfloor> < - 1022"
    then have "real_of_int (- 1022) \<le> log 2 \<bar>x\<bar>" by linarith
    then have "2 powr real_of_int (- 1022) \<le> \<bar>x\<bar>"
      using pos by (simp add: le_log_iff)
    then have "2 powi (- 1022) \<le> \<bar>x\<bar>"
      by (simp only: two_powr_int)
    then show False using assms by (meson not_le)
  qed
  then show ?thesis using False by (simp add: fl_def Let_def max_def)
qed

lemma fl_exact:
  assumes "2 powi e \<le> \<bar>x\<bar>" and "\<bar>x\<bar> < 2 powi (e + 1)" and "- 1022 \<le> e"
    and "x / 2 powi (e - 52) = of_int k"
  shows "fl x = x"
  using fl_normal[OF assms(1-3)] assms(4)
  by (smt (verit) nonzero_eq_divide_eq power_int_eq_0_iff round_half_even_int)

lemma fl_nat:
  assumes "n \<le> 2 ^ 53"
  shows "fl (real n) = real n"
proof (cases "n = 0")
  case True
  then show ?thesis by simp
next
  case False
  then have "1 \<le> n" by simp
  from ex_power_ivl1[OF _ this, of 2]
  obtain e where e: "2 ^ e \<le> n" "n < 2 ^ (e + 1)" by auto
  have "(2::nat) ^ e \<le> 2 ^ 53" using e(1) assms by linarith
  then have e53: "e \<le> 53"
    by (rule power_le_imp_le_exp[rotated]) simp
  have lo: "2 powi int e \<le> \<bar>real n\<bar>"
    using e(1) by (simp add: power_int_def)
  have hi: "\<bar>real n\<bar> < 2 powi (int e + 1)"
  proof -
    have "real n < 2 ^ (e + 1)"
      using e(2) by (metis of_nat_less_iff of_nat_numeral of_nat_power)
    moreover have "(2::real) powi (int e + 1) = 2 ^ (e + 1)"
      by (simp add: power_int_def nat_add_distrib)
    ultimately show ?thesis by simp
  qed
  show ?thesis
  proof (cases "e \<le> 52")
    case True
    have "(2::real) powi (int e - 52) = inverse (2 ^ (52 - e))"
      using True by (simp add: power_int_def nat_diff_distrib' power_one_over inverse_eq_divide)
    then have "real n / 2 powi (int e - 52) = of_int (int (n * 2 ^ (52 - e)))"
      by (simp add: field_simps)
    from fl_exact[OF lo hi _ this] show ?thesis by simp
  next
    case False
    with e53 have e: "e = 53" by simp
    with \<open>2 ^ e \<le> n\<close> assms have n: "n = 2 ^ 53" by simp
    have "real n / 2 powi (int e - 52) = of_int (2 ^ 52)"
      by (simp add: e n)
    from fl_exact[OF lo hi _ this] show ?thesis by simp
  qed
qed

lemma fl_numeral [simp]: "numeral k \<le> (2 ^ 53 :: nat) \<Longrightarrow> fl (numeral k) = numeral k"
  using fl_nat[of "numeral k"] by simp

lemma fl_one [simp]: "fl 1 = 1"
  using fl_nat[of 1] by simp

lemma fl_Nats:
  assumes "x \<in> \<nat>" and "x \<le> 2 ^ 53"
  shows "fl x = x"
proof -
  from assms(1) obtain n where n: "x = real n" by (auto elim: Nats_cases)
  have "real n \<le> real (2 ^ 53)" using assms(2) n by simp
  then have "n \<le> 2 ^ 53" by (simp only: of_nat_le_iff)
  then show ?thesis using fl_nat n by simp
qed

lemma Nats_nonneg: "x \<in> \<nat> \<Longrightarrow> (0::real) \<le> x"
  by (auto elim: Nats_cases)

lemma sum_list_Nats: "\<forall>x\<in>set xs. f x \<in> \<nat> \<Longrightarrow> sum_list (map f xs) \<in> (\<nat> :: real set)"
  by (induction xs) (simp_all add: Nats_add)

lemma fold_fl_exact:
  assumes "\<forall>x\<in>set xs. f x \<in> \<nat>" and "a \<in> \<nat>" and "a + sum_list (map f xs) \<le> 2 ^ 53"
  shows "foldl (\<lambda>sum x. fl (sum + f x)) a xs = a + sum_list (map f xs)"
  using assms
proof (induction xs arbitrary: a)
  case Nil
  show ?case by simp
next
  case (Cons x xs)
  have rest: "0 \<le> sum_list (map f xs)"
    using Cons.prems(1) by (intro Nats_nonneg sum_list_Nats) simp
  have nat: "a + f x \<in> \<nat>" using Cons.prems(1,2) by (simp add: Nats_add)
  have "a + f x \<le> 2 ^ 53" using Cons.prems(3) rest by simp
  then have step: "fl (a + f x) = a + f x" using nat by (rule fl_Nats[rotated])
  have "foldl (\<lambda>sum x. fl (sum + f x)) (a + f x) xs = (a + f x) + sum_list (map f xs)"
    using Cons.prems nat by (intro Cons.IH) (simp_all add: add.assoc)
  then show ?case by (simp add: step add.assoc)
qed

lemma fold_fl_zero:
  "\<forall>x\<in>set xs. g x = 0 \<Longrightarrow> foldl (\<lambda>sum x. fl (sum + g x)) 0 xs = 0"
  by (induction xs) simp_all

lemma round_half_even_small: "\<bar>q\<bar> < 1 / 2 \<Longrightarrow> round_half_even q = 0"
proof (cases "0 \<le> q")
  case True
  assume "\<bar>q\<bar> < 1 / 2"
  with True have "\<lfloor>q\<rfloor> = 0" by (simp add: floor_eq_iff)
  with True \<open>\<bar>q\<bar> < 1 / 2\<close> show ?thesis by (simp add: round_half_even_def)
next
  case False
  assume "\<bar>q\<bar> < 1 / 2"
  with False have "\<lfloor>q\<rfloor> = - 1" by (simp add: floor_eq_iff)
  with False \<open>\<bar>q\<bar> < 1 / 2\<close> show ?thesis by (simp add: round_half_even_def)
qed

text \<open>Underflow: a result of at most a quarter of the smallest subnormal rounds to 0.\<close>

lemma fl_underflow:
  assumes "\<bar>x\<bar> \<le> 2 powi (- 2) * 2 powi (- 1074)"
  shows "fl x = 0"
proof -
  have pos: "(0::real) < 2 powi (- 1074)" by (rule zero_less_power_int) simp
  have "(2::real) powi (- 2) * 2 powi (- 1074) < 1 * 2 powi (- 1074)"
    using pos by (intro mult_strict_right_mono) simp_all
  also have "\<dots> \<le> 2 powi (- 1022)" 
    by (simp only: mult_1) (rule power_int_increasing, simp_all)
  finally have sub: "\<bar>x\<bar> < 2 powi (- 1022)" using assms by linarith
  have "\<bar>x / 2 powi (- 1074)\<bar> \<le> 2 powi (- 2)"
    using assms pos by (simp add: abs_divide pos_divide_le_eq)
  then have "\<bar>x / 2 powi (- 1074)\<bar> < 1 / 2" by simp
  then have "round_half_even (x / 2 powi (- 1074)) = 0" by (rule round_half_even_small)
  then show ?thesis by (simp only: fl_subnormal[OF sub] of_int_0 mult_zero_left)
qed

lemma fl_201: "fl (201 / 100) = 4526117625507348 / 2 ^ 51"
  by (subst fl_normal[where e = 1]) (simp_all add: round_half_even_def)

section \<open>Properties of the synthesizer\<close>

subsection \<open>weightedRandom always returns one of its items\<close>

lemma foldl_plus_sum_list: "foldl (\<lambda>sum w. sum + w) a ws = a + sum_list (ws :: real list)"
  by (induction ws arbitrary: a) simp_all

lemma weighted_loop_member:
  "items \<noteq> [] \<Longrightarrow> \<exists>x\<in>set items. weighted_loop items weights i r = Some x"
proof (induction items weights i r rule: weighted_loop.induct)
  case (1 items weights i random)
  show ?case
  proof (cases "i < length items")
    case True
    then show ?thesis using 1
      by (subst weighted_loop.simps) (auto simp: Let_def)
  next
    case False
    then show ?thesis using 1(2)
      by (subst weighted_loop.simps) (auto simp: last_item_def)
  qed
qed

lemma running_step: "js_minus (running_before u ws i) (weight_at ws i) = running_value u ws i"
  by (auto simp: running_before_def weight_at_def running_value_def js_minus_def take_Suc_conv_app_nth)

lemma running_before_Suc:
  "running_value u ws i = running_before u ws (i + 1)"
  by (auto simp: running_before_def running_value_def)

lemma weighted_loop_fallback:
  "items \<noteq> [] \<Longrightarrow> r = running_before u ws i \<Longrightarrow>
   (\<forall>j. i \<le> j \<and> j < length items \<longrightarrow> \<not> js_le_zero (running_value u ws j)) \<Longrightarrow>
   weighted_loop items ws i r = Some (last items)"
proof (induction items ws i r rule: weighted_loop.induct)
  case (1 items weights i random)
  show ?case
  proof (cases "i < length items")
    case True
    have nz: "\<not> js_le_zero (js_minus random (weight_at weights i))"
      using 1(3,4) True by (simp add: running_step)
    have "weighted_loop items weights (i + 1) (js_minus random (weight_at weights i)) = Some (last items)"
    proof (rule 1(1)[OF True refl nz 1(2)])
      show "js_minus random (weight_at weights i) = running_before u weights (i + 1)"
        using 1(3) by (simp add: running_step running_before_Suc)
      show "\<forall>j. i + 1 \<le> j \<and> j < length items \<longrightarrow> \<not> js_le_zero (running_value u weights j)"
        using 1(4) by auto
    qed
    then show ?thesis using True nz
      by (subst weighted_loop.simps) (simp add: Let_def)
  next
    case False
    then show ?thesis using 1(2)
      by (subst weighted_loop.simps) (simp add: last_item_def last_conv_nth)
  qed
qed

text \<open>
  Claim C10.  For a non-empty item list and any weight list (shorter, longer, with zero
  or negative entries) and any draw, \<open>weightedRandom\<close> returns an element of the item
  list; when no step of the loop brings the running value to zero or below, the result
  is the last item.
\<close>

theorem weightedRandom_returns_item:
  "items \<noteq> [] \<Longrightarrow>
   (\<exists>x\<in>set items. weightedRandom u items weights = Some x) \<and>
   ((\<forall>i<length items. \<not> js_le_zero (running_value u weights i)) \<longrightarrow>
      weightedRandom u items weights = Some (last items))"
proof (intro conjI impI)
  assume ne: "items \<noteq> []"
  show "\<exists>x\<in>set items. weightedRandom u items weights = Some x"
    unfolding weightedRandom_def Let_def by (rule weighted_loop_member[OF ne])
  assume nc: "\<forall>i<length items. \<not> js_le_zero (running_value u weights i)"
  have "weighted_loop items weights 0 (Some (u * sum_list weights)) = Some (last items)"
    by (rule weighted_loop_fallback[OF ne, where u = u])
       (use nc in \<open>simp_all add: running_before_def\<close>)
  then show "weightedRandom u items weights = Some (last items)"
    by (simp add: weightedRandom_def foldl_plus_sum_list)
qed

theorem weightedRandom_returns_item_witness:
  "[Low, Medium, High] \<noteq> [] \<and>
   \<not> js_le_zero (running_value (1/2) [-1] 0) \<and>
   \<not> js_le_zero (running_value (1/2) [-1] 1) \<and>
   \<not> js_le_zero (running_value (1/2) [-1] 2) \<and>
   weightedRandom (1/2) [Low, Medium, High] [-1] = Some High"
  using weightedRandom_returns_item[of "[Low, Medium, High]" "1/2" "[-1]"]
  by (simp add: running_value_def js_le_zero_def less_Suc_eq numeral_3_eq_3 all_conj_distrib)

subsection \<open>The generating loop never advances\<close>

lemma mock_point_defined:
  assumes "0 \<le> rng (k + 1)" and "rng (k + 1) < 1"
  shows "\<exists>p. mock_point rng k current = Some p"
proof -
  obtain vl where vl: "weightedRandom (rng k) [Low, Medium, High] (volatilityWeights current) = Some vl"
    using weighted_loop_member[of "[Low, Medium, High]"]
    unfolding weightedRandom_def Let_def by blast
  have "0 \<le> rng (k + 1) * 3" "rng (k + 1) * 3 < 3" using assms by simp_all
  then have "0 \<le> \<lfloor>rng (k + 1) * 3\<rfloor>" "\<lfloor>rng (k + 1) * 3\<rfloor> < 3"
    by (simp_all add: floor_less_iff)
  then obtain pf where "item_at [Positive, Negative, Neutral] \<lfloor>rng (k + 1) * 3\<rfloor> = Some pf"
    by (simp add: item_at_def)
  then show ?thesis using vl by (simp add: mock_point_def)
qed

lemma gen_loop_never_returns:
  assumes "gen_loop rng current end' data k = Some out"
  shows "\<not> (isBefore current end' \<or> isSame_day current end')"
proof (rule gen_loop.raw_induct
    [where P = "\<lambda>rng current end' data k out. \<not> (isBefore current end' \<or> isSame_day current end')",
     OF _ assms])
  fix f rng current end' data k out
  assume IH: "\<And>rng current end' data k out. f rng current end' data k = Some out \<Longrightarrow>
                \<not> (isBefore current end' \<or> isSame_day current end')"
    and body: "(if isBefore current end' \<or> isSame_day current end' then
        (let dayOfWeek = dayjs_day (cal current);
             isWeekend = (dayOfWeek = 0 \<or> dayOfWeek = 6);
             dropped = dayjs_add_day (cal current)
         in if \<not> isWeekend then
              (case mock_point rng k (cal current) of
                 Some p \<Rightarrow> f rng current end' (data @ [p]) (k + 5)
               | None \<Rightarrow> None)
            else f rng current end' data k)
      else Some data) = Some out"
  show "\<not> (isBefore current end' \<or> isSame_day current end')"
  proof
    assume c: "isBefore current end' \<or> isSame_day current end'"
    from body c IH show False
      by (simp add: Let_def split: if_splits option.splits)
  qed
qed

lemma gen_loop_diverges:
  "isBefore current end' \<or> isSame_day current end' \<Longrightarrow> gen_loop rng current end' data k = None"
  using gen_loop_never_returns[of rng current end' data k]
  by (cases "gen_loop rng current end' data k") auto

text \<open>
  Claim C2 (the code departs from it).  For a start day on or before the end day the
  loop condition holds on entry and stays true, because \<open>current\<close> is never replaced:
  the call does not return, neither for the one-day range 2024-01-01 (a Monday) nor for
  the week 2024-01-01 to 2024-01-05.  For a start day after the end day the result is
  the empty list.
\<close>

theorem generateMockMarketData_never_returns:
  "generateMockMarketData rng \<lparr>cal = \<lparr>yr = 2024, mon = 1, dom = 1\<rparr>, tod = 0\<rparr>
       \<lparr>cal = \<lparr>yr = 2024, mon = 1, dom = 1\<rparr>, tod = 0\<rparr> = None \<and>
   generateMockMarketData rng \<lparr>cal = \<lparr>yr = 2024, mon = 1, dom = 1\<rparr>, tod = 0\<rparr>
       \<lparr>cal = \<lparr>yr = 2024, mon = 1, dom = 5\<rparr>, tod = 0\<rparr> = None \<and>
   generateMockMarketData rng \<lparr>cal = \<lparr>yr = 2024, mon = 1, dom = 2\<rparr>, tod = 0\<rparr>
       \<lparr>cal = \<lparr>yr = 2024, mon = 1, dom = 1\<rparr>, tod = 0\<rparr> = Some []"
proof (intro conjI)
  show "generateMockMarketData rng \<lparr>cal = \<lparr>yr = 2024, mon = 1, dom = 1\<rparr>, tod = 0\<rparr>
       \<lparr>cal = \<lparr>yr = 2024, mon = 1, dom = 1\<rparr>, tod = 0\<rparr> = None"
    unfolding generateMockMarketData_def
    by (rule gen_loop_diverges) (simp add: isSame_day_def)
  show "generateMockMarketData rng \<lparr>cal = \<lparr>yr = 2024, mon = 1, dom = 1\<rparr>, tod = 0\<rparr>
       \<lparr>cal = \<lparr>yr = 2024, mon = 1, dom = 5\<rparr>, tod = 0\<rparr> = None"
    unfolding generateMockMarketData_def
    by (rule gen_loop_diverges) (simp add: isBefore_def day_number_def days_from_civil_def)
  show "generateMockMarketData rng \<lparr>cal = \<lparr>yr = 2024, mon = 1, dom = 2\<rparr>, tod = 0\<rparr>
       \<lparr>cal = \<lparr>yr = 2024, mon = 1, dom = 1\<rparr>, tod = 0\<rparr> = Some []"
    unfolding generateMockMarketData_def
    by (subst gen_loop.simps) (simp add: isBefore_def isSame_day_def day_number_def days_from_civil_def)
qed

subsection \<open>The volatility weights of a generated day\<close>

text \<open>
  Claim C7, as the code has it.  The record generated for a day draws its volatility
  level with the weights 0.2, 0.4, 0.4 exactly when the day of the month is greater
  than 25 or the month is January, April, July or October, and with the weights
  0.5, 0.3, 0.2 otherwise.
\<close>

theorem volatility_weights_by_day_of_month:
  "mock_point rng k current = Some p \<Longrightarrow>
   Some (volatilityLevel p) =
     weightedRandom (rng k) [Low, Medium, High]
       (if dom current > 25 \<or> mon current = 1 \<or> mon current = 4 \<or> mon current = 7 \<or> mon current = 10
        then [0.2, 0.4, 0.4] else [0.5, 0.3, 0.2])"
  by (auto simp: mock_point_def volatilityWeights_def isMonthEnd_def isEarningsSeason_def Let_def
      split: option.splits)

theorem volatility_weights_by_day_of_month_witness:
  "mock_point (\<lambda>n. 1/2) 0 \<lparr>yr = 2024, mon = 8, dom = 26\<rparr>
     = Some \<lparr>date = \<lparr>yr = 2024, mon = 8, dom = 26\<rparr>, volatilityLevel = Medium, volume = 600000,
             performance = Negative, priceChange = 0, liquidity = 51\<rparr>
   \<and> Some Medium = weightedRandom (1/2) [Low, Medium, High] [0.2, 0.4, 0.4]"
proof -
  have mp: "mock_point (\<lambda>n. 1/2) 0 \<lparr>yr = 2024, mon = 8, dom = 26\<rparr>
     = Some \<lparr>date = \<lparr>yr = 2024, mon = 8, dom = 26\<rparr>, volatilityLevel = Medium, volume = 600000,
             performance = Negative, priceChange = 0, liquidity = 51\<rparr>"
    by (simp add: mock_point_def volatilityWeights_def isMonthEnd_def isEarningsSeason_def
        weightedRandom_def weighted_loop.simps weight_at_def js_minus_def js_le_zero_def item_at_def)
  show ?thesis
    using volatility_weights_by_day_of_month[OF mp] mp by simp
qed

text \<open>
  Monday 2024-08-26 is not among the last five days of August (27th to 31st) and August
  opens no quarter, yet the raised weights apply; Monday 2025-02-24 is among the last
  five days of February 2025 (24th to 28th), yet the baseline weights apply.
\<close>

theorem volatility_weights_last_five_days_counterexample:
  "volatilityWeights \<lparr>yr = 2024, mon = 8, dom = 26\<rparr> = [0.2, 0.4, 0.4]
   \<and> \<not> in_last_five_days \<lparr>yr = 2024, mon = 8, dom = 26\<rparr>
   \<and> \<not> quarter_opening_month \<lparr>yr = 2024, mon = 8, dom = 26\<rparr>
   \<and> dayjs_day \<lparr>yr = 2024, mon = 8, dom = 26\<rparr> = 1
   \<and> volatilityWeights \<lparr>yr = 2025, mon = 2, dom = 24\<rparr> = [0.5, 0.3, 0.2]
   \<and> in_last_five_days \<lparr>yr = 2025, mon = 2, dom = 24\<rparr>
   \<and> dayjs_day \<lparr>yr = 2025, mon = 2, dom = 24\<rparr> = 1"
  by (simp add: volatilityWeights_def isMonthEnd_def isEarningsSeason_def in_last_five_days_def
      quarter_opening_month_def days_in_month_def is_leap_def dayjs_day_def day_number_def
      days_from_civil_def)

section \<open>Properties of the aggregator\<close>

subsection \<open>The dominant category of a bucket\<close>

lemma first_occurrences_snoc:
  "first_occurrences (xs @ [x]) = (if x \<in> set xs then first_occurrences xs else first_occurrences xs @ [x])"
  by (simp add: first_occurrences_def)

lemma set_first_occurrences [simp]: "set (first_occurrences xs) = set xs"
  by (simp add: first_occurrences_def)

lemma distinct_first_occurrences [simp]: "distinct (first_occurrences xs)"
  by (simp add: first_occurrences_def)

lemma first_index_snoc_old: "k \<in> set xs \<Longrightarrow> first_index (xs @ [x]) k = first_index xs k"
  by (simp add: first_index_def takeWhile_append1)

lemma first_index_less: "k \<in> set xs \<Longrightarrow> first_index xs k < length xs"
  unfolding first_index_def by (induction xs) auto

lemma first_index_snoc_new: "x \<notin> set xs \<Longrightarrow> first_index (xs @ [x]) x = length xs"
  unfolding first_index_def by (induction xs) auto

lemma first_occurrences_ordered:
  "sorted_wrt (\<lambda>a b. first_index xs a < first_index xs b) (first_occurrences xs)"
proof (induction xs rule: rev_induct)
  case Nil
  show ?case by (simp add: first_occurrences_def)
next
  case (snoc x xs)
  have old: "sorted_wrt (\<lambda>a b. first_index (xs @ [x]) a < first_index (xs @ [x]) b) (first_occurrences xs)"
    by (rule sorted_wrt_mono_rel[OF _ snoc.IH]) (simp add: first_index_snoc_old)
  show ?case
  proof (cases "x \<in> set xs")
    case True
    then show ?thesis using old by (simp add: first_occurrences_snoc)
  next
    case False
    then show ?thesis using old
      by (simp add: first_occurrences_snoc sorted_wrt_append first_index_snoc_new
          first_index_snoc_old first_index_less)
  qed
qed

lemma bump_keys:
  "map fst (bump k cs) = (if k \<in> fst ` set cs then map fst cs else map fst cs @ [k])"
proof (induction cs)
  case Nil
  show ?case by simp
next
  case (Cons c cs)
  obtain k' n where c: "c = (k', n)" by (cases c)
  show ?case
  proof (cases "k = k'")
    case True
    then show ?thesis by (simp add: c)
  next
    case False
    then show ?thesis using Cons.IH by (simp add: c)
  qed
qed

lemma bump_map_of:
  "map_of (bump k cs) = (map_of cs)(k \<mapsto> (case map_of cs k of None \<Rightarrow> 1 | Some n \<Rightarrow> n + 1))"
  by (induction cs) (auto simp: fun_eq_iff)

lemma tally_snoc: "tally (ks @ [k]) = bump k (tally ks)"
  by (simp add: tally_def)

lemma tally_keys: "map fst (tally ks) = first_occurrences ks"
proof (induction ks rule: rev_induct)
  case Nil
  show ?case by (simp add: tally_def first_occurrences_def)
next
  case (snoc k ks)
  have "fst ` set (tally ks) = set ks"
    using snoc.IH by (metis set_first_occurrences set_map)
  then show ?case
    by (simp add: tally_snoc bump_keys first_occurrences_snoc snoc.IH)
qed

lemma tally_map_of:
  "map_of (tally ks) k = (if k \<in> set ks then Some (count_list ks k) else None)"
proof (induction ks rule: rev_induct)
  case Nil
  show ?case by (simp add: tally_def)
next
  case (snoc x ks)
  then show ?case
    by (auto simp: tally_snoc bump_map_of)
qed

lemma tally_field: "foldl (\<lambda>acc item. bump (field item) acc) [] data = tally (map field data)"
  by (simp add: tally_def foldl_map)

lemma tally_distinct: "distinct (map fst (tally ks))"
  by (simp add: tally_keys)

lemma tally_entry: "(k, n) \<in> set (tally ks) \<Longrightarrow> k \<in> set ks \<and> n = count_list ks k"
  using tally_map_of[of ks k] map_of_eq_Some_iff[OF tally_distinct, of ks k n]
  by (auto split: if_splits)

lemma tally_count_gt:
  assumes "a \<in> set (tally ks)" "b \<in> set (tally ks)"
  shows "count_gt (tally ks) (fst a) (fst b) = (snd b < snd a)"
proof -
  obtain ka na kb nb where ab: "a = (ka, na)" "b = (kb, nb)"
    by (cases a, cases b) auto
  from assms ab have "map_of (tally ks) ka = Some na" "map_of (tally ks) kb = Some nb"
    by (simp_all add: map_of_eq_Some_iff[OF tally_distinct])
  then show ?thesis by (simp add: count_gt_def ab)
qed

lemma foldl_keeps_last_maximum:
  assumes "\<And>a b. a \<in> set (x # xs) \<Longrightarrow> b \<in> set (x # xs) \<Longrightarrow> gt a b = (g b < (g a :: nat))"
  shows "\<exists>pre post. x # xs = pre @ foldl (\<lambda>a b. if gt a b then a else b) x xs # post
            \<and> (\<forall>e\<in>set pre. g e \<le> g (foldl (\<lambda>a b. if gt a b then a else b) x xs))
            \<and> (\<forall>e\<in>set post. g e < g (foldl (\<lambda>a b. if gt a b then a else b) x xs))"
  using assms
proof (induction xs rule: rev_induct)
  case Nil
  show ?case by (intro exI[of _ "[]"]) simp
next
  case (snoc b xs)
  let ?step = "\<lambda>a b. if gt a b then a else b"
  let ?r = "foldl ?step x xs"
  have "\<exists>pre post. x # xs = pre @ ?r # post \<and> (\<forall>e\<in>set pre. g e \<le> g ?r) \<and> (\<forall>e\<in>set post. g e < g ?r)"
    by (rule snoc.IH) (use snoc.prems in auto)
  then obtain pre post where split: "x # xs = pre @ ?r # post"
    and pre: "\<forall>e\<in>set pre. g e \<le> g ?r" and post: "\<forall>e\<in>set post. g e < g ?r"
    by blast
  have rin: "?r \<in> set (x # xs)"
    by (subst split) simp
  have cmp: "gt ?r b = (g b < g ?r)"
    using rin by (intro snoc.prems) auto
  show ?case
  proof (cases "g b < g ?r")
    case True
    have "x # xs @ [b] = pre @ ?r # (post @ [b])"
      using split by simp
    moreover have "\<forall>e\<in>set (post @ [b]). g e < g ?r"
      using post True by simp
    ultimately have "x # xs @ [b] = pre @ foldl ?step x (xs @ [b]) # (post @ [b])
        \<and> (\<forall>e\<in>set pre. g e \<le> g (foldl ?step x (xs @ [b])))
        \<and> (\<forall>e\<in>set (post @ [b]). g e < g (foldl ?step x (xs @ [b])))"
      using pre cmp True by simp
    then show ?thesis by blast
  next
    case False
    have all: "\<forall>e\<in>set (x # xs). g e \<le> g b"
    proof
      fix e assume "e \<in> set (x # xs)"
      then have "e \<in> set pre \<or> e = ?r \<or> e \<in> set post"
        by (subst (asm) split) auto
      then have "g e \<le> g ?r" using pre post by (auto simp: less_imp_le)
      then show "g e \<le> g b" using False by simp
    qed
    have "x # xs @ [b] = (x # xs) @ foldl ?step x (xs @ [b]) # []
        \<and> (\<forall>e\<in>set (x # xs). g e \<le> g (foldl ?step x (xs @ [b])))
        \<and> (\<forall>e\<in>set []. g e < g (foldl ?step x (xs @ [b])))"
      using all cmp False by simp
    then show ?thesis by blast
  qed
qed

lemma most_frequent_by_spec:
  assumes "data \<noteq> []"
  shows "\<exists>v. most_frequent_by field data = Inr v
           \<and> v \<in> set (map field data)
           \<and> (\<forall>w. count_list (map field data) w \<le> count_list (map field data) v)
           \<and> (\<forall>w. w \<noteq> v \<and> count_list (map field data) w = count_list (map field data) v
                  \<longrightarrow> first_index (map field data) w < first_index (map field data) v)"
proof -
  let ?ks = "map field data"
  let ?cs = "tally ?ks"
  let ?step = "\<lambda>a b. if count_gt ?cs (fst a) (fst b) then a else b"
  from assms have "first_occurrences ?ks \<noteq> []"
    by (metis set_first_occurrences set_empty map_is_Nil_conv)
  then have "?cs \<noteq> []" using tally_keys[of ?ks] by auto
  then obtain x xs where cs: "?cs = x # xs" by (cases ?cs) auto
  let ?r = "foldl ?step x xs"
  have "\<exists>pre post. x # xs = pre @ ?r # post
            \<and> (\<forall>e\<in>set pre. snd e \<le> snd ?r) \<and> (\<forall>e\<in>set post. snd e < snd ?r)"
    by (rule foldl_keeps_last_maximum) (use cs tally_count_gt[of _ ?ks] in auto)
  then obtain pre post where split: "?cs = pre @ ?r # post"
    and pre: "\<forall>e\<in>set pre. snd e \<le> snd ?r" and post: "\<forall>e\<in>set post. snd e < snd ?r"
    using cs by auto
  obtain v n where r: "?r = (v, n)" by (cases ?r) auto
  have rin: "(v, n) \<in> set ?cs" by (subst split) (simp add: r)
  then have v: "v \<in> set ?ks" and n: "n = count_list ?ks v"
    using tally_entry by fastforce+
  have res: "most_frequent_by field data = Inr v"
    using r[unfolded cs] by (simp add: most_frequent_by_def tally_field cs reduce1_def)
  have entry: "(w, count_list ?ks w) \<in> set ?cs" if "w \<in> set ?ks" for w
    using that tally_map_of[of ?ks w] by (simp add: map_of_eq_Some_iff[OF tally_distinct])
  have maxi: "count_list ?ks w \<le> count_list ?ks v" for w
  proof (cases "w \<in> set ?ks")
    case True
    from entry[OF True] have "(w, count_list ?ks w) \<in> set pre \<or> (w, count_list ?ks w) = ?r
        \<or> (w, count_list ?ks w) \<in> set post"
      by (subst (asm) split) auto
    then show ?thesis using pre post r n by (auto simp: less_imp_le)
  next
    case False
    then show ?thesis by (simp add: count_list_0_iff)
  qed
  have order: "sorted_wrt (\<lambda>a b. first_index ?ks a < first_index ?ks b) (map fst pre @ v # map fst post)"
    using first_occurrences_ordered[of ?ks] tally_keys[of ?ks] split r
    by (metis (no_types, lifting) fst_conv list.simps(9) map_append)
  have ties: "first_index ?ks w < first_index ?ks v"
    if "w \<noteq> v" and tie: "count_list ?ks w = count_list ?ks v" for w
  proof -
    have "count_list ?ks v > 0" using v count_list_0_iff[of ?ks v] by auto
    then have w: "w \<in> set ?ks" using tie by (metis count_list_0_iff less_numeral_extra(3))
    from entry[OF w] have "(w, count_list ?ks w) \<in> set pre \<or> (w, count_list ?ks w) = ?r
        \<or> (w, count_list ?ks w) \<in> set post"
      by (subst (asm) split) auto
    then have "(w, count_list ?ks w) \<in> set pre"
      using post r n tie that(1) by auto
    then have "w \<in> set (map fst pre)" by force
    then show ?thesis using order by (auto simp: sorted_wrt_append)
  qed
  show ?thesis using res v maxi ties by blast
qed

text \<open>
  Claim C1, as the code has it.  For a non-empty bucket both reductions return a value
  that occurs in the bucket and whose number of occurrences is the highest; every other
  value with the same number of occurrences was first met earlier in the bucket, so
  among tied values the one first met last is returned.
\<close>

theorem dominant_category:
  "bucket \<noteq> [] \<Longrightarrow>
   (\<exists>v. getMostFrequentVolatility bucket = Inr v
      \<and> v \<in> set (map volatilityLevel bucket)
      \<and> (\<forall>w. count_list (map volatilityLevel bucket) w \<le> count_list (map volatilityLevel bucket) v)
      \<and> (\<forall>w. w \<noteq> v \<and> count_list (map volatilityLevel bucket) w = count_list (map volatilityLevel bucket) v
             \<longrightarrow> first_index (map volatilityLevel bucket) w < first_index (map volatilityLevel bucket) v))
   \<and> (\<exists>p. getMostFrequentPerformance bucket = Inr p
      \<and> p \<in> set (map performance bucket)
      \<and> (\<forall>w. count_list (map performance bucket) w \<le> count_list (map performance bucket) p)
      \<and> (\<forall>w. w \<noteq> p \<and> count_list (map performance bucket) w = count_list (map performance bucket) p
             \<longrightarrow> first_index (map performance bucket) w < first_index (map performance bucket) p))"
  unfolding getMostFrequentVolatility_def getMostFrequentPerformance_def
  using most_frequent_by_spec[of bucket volatilityLevel] most_frequent_by_spec[of bucket performance]
  by blast

lemma mf_test_vol: "getMostFrequentVolatility test_bucket = Inr High"
  by (simp add: getMostFrequentVolatility_def most_frequent_by_def test_bucket_def reduce1_def count_gt_def)

lemma mf_test_perf: "getMostFrequentPerformance test_bucket = Inr Negative"
  by (simp add: getMostFrequentPerformance_def most_frequent_by_def test_bucket_def reduce1_def count_gt_def)

theorem dominant_category_witness:
  "test_bucket \<noteq> []
   \<and> getMostFrequentVolatility test_bucket = Inr High
   \<and> getMostFrequentPerformance test_bucket = Inr Negative
   \<and> first_index (map volatilityLevel test_bucket) Low < first_index (map volatilityLevel test_bucket) High
   \<and> first_index (map performance test_bucket) Positive < first_index (map performance test_bucket) Negative"
proof -
  have ne: "test_bucket \<noteq> []" by (simp add: test_bucket_def)
  have cnt: "count_list (map volatilityLevel test_bucket) Low = count_list (map volatilityLevel test_bucket) High"
    "count_list (map performance test_bucket) Positive = count_list (map performance test_bucket) Negative"
    by (simp_all add: test_bucket_def)
  from dominant_category[OF ne] mf_test_vol mf_test_perf cnt ne
  show ?thesis by auto
qed

text \<open>
  In the test bucket \<open>low\<close> and \<open>high\<close> occur once each and \<open>low\<close> comes first; the
  reduction returns \<open>high\<close>.
\<close>

theorem dominant_category_tie_counterexample:
  "getMostFrequentVolatility test_bucket = Inr High
   \<and> count_list (map volatilityLevel test_bucket) Low = count_list (map volatilityLevel test_bucket) High
   \<and> first_index (map volatilityLevel test_bucket) Low = 0
   \<and> first_index (map volatilityLevel test_bucket) High = 1"
  by (simp add: getMostFrequentVolatility_def most_frequent_by_def test_bucket_def reduce1_def
      count_gt_def first_index_def)

subsection \<open>Period keys\<close>

lemma digit_roundtrip: "d < 10 \<Longrightarrow> digit_val (digit_char d) = d"
proof -
  have "list_all (\<lambda>d. digit_val (digit_char d) = d) [0..<10]"
    by code_simp
  moreover assume "d < 10"
  ultimately show ?thesis by (simp add: list_all_iff)
qed

lemma digit_char_is_digit: "is_digit (digit_char d)"
proof -
  have "list_all (\<lambda>d. is_digit (digit_char d)) [0..<10]"
    by code_simp
  moreover have "d mod 10 < 10" by simp
  moreover have "digit_char d = digit_char (d mod 10)" by (simp add: digit_char_def)
  ultimately show ?thesis by (simp add: list_all_iff)
qed

lemma parse_nat_snoc: "parse_nat (s @ [c]) = 10 * parse_nat s + digit_val c"
  by (simp add: parse_nat_def)

lemma parse_show_nat: "parse_nat (show_nat n) = n"
proof (induction n rule: show_nat.induct)
  case (1 n)
  show ?case
  proof (cases "n < 10")
    case True
    then show ?thesis
      by (subst show_nat.simps) (simp add: parse_nat_def digit_roundtrip)
  next
    case False
    then have "parse_nat (show_nat (n div 10)) = n div 10" using 1 by simp
    with False show ?thesis
      by (subst show_nat.simps) (simp add: parse_nat_snoc digit_roundtrip)
  qed
qed

lemma show_nat_inj: "show_nat a = show_nat b \<Longrightarrow> a = b"
  by (metis parse_show_nat)

lemma show_nat_digits: "list_all is_digit (show_nat n)"
proof (induction n rule: show_nat.induct)
  case (1 n)
  show ?case
  proof (cases "n < 10")
    case True
    then show ?thesis by (subst show_nat.simps) (simp add: digit_char_is_digit)
  next
    case False
    with 1 show ?thesis by (subst show_nat.simps) (simp add: digit_char_is_digit)
  qed
qed

lemma parse_nat_zeros: "parse_nat (replicate k CHR ''0'' @ s) = parse_nat s"
proof -
  have z: "digit_val CHR ''0'' = 0" by (simp add: digit_val_def)
  have "parse_nat (replicate k CHR ''0'') = 0"
  proof (induction k)
    case 0
    show ?case by (simp add: parse_nat_def)
  next
    case (Suc k)
    have "replicate (Suc k) CHR ''0'' = replicate k CHR ''0'' @ [CHR ''0'']"
      by (simp add: replicate_append_same)
    then show ?case using Suc z by (simp only: parse_nat_snoc)
  qed
  then show ?thesis by (simp add: parse_nat_def)
qed

lemma padStart2_inj: "padStart2 (show_nat a) = padStart2 (show_nat b) \<Longrightarrow> a = b"
  by (metis padStart2_def parse_nat_zeros parse_show_nat)

lemma weekKey_inj: "weekKey year a = weekKey year b \<Longrightarrow> a = b"
  by (simp add: weekKey_def show_nat_inj)

lemma monthKey_inj: "monthKey year a = monthKey year b \<Longrightarrow> a = b"
  by (simp add: monthKey_def padStart2_inj)

lemma dash_no_digit: "\<not> is_digit CHR ''-''"
  by (simp add: is_digit_def)

lemma weekKey_no_index: "\<not> is_array_index (weekKey year w)"
  by (simp add: is_array_index_def weekKey_def dash_no_digit)

lemma monthKey_no_index: "\<not> is_array_index (monthKey year m)"
  by (simp add: is_array_index_def monthKey_def dash_no_digit)

lemma object_entries_plain:
  "\<forall>e\<in>set obj. \<not> is_array_index (fst e) \<Longrightarrow> object_entries obj = obj"
  by (simp add: object_entries_def filter_empty_conv[THEN iffD2])


subsection \<open>Buckets\<close>

lemma push_group_map:
  "distinct ks \<Longrightarrow>
   push_group key v (map (\<lambda>k. (k, F k)) ks) =
     (if key \<in> set ks then map (\<lambda>k. (k, if k = key then F k @ [v] else F k)) ks
      else map (\<lambda>k. (k, F k)) ks @ [(key, [v])])"
  by (induction ks) auto

lemma grouping_snoc: "grouping key (xs @ [x]) = push_group (key x) x (grouping key xs)"
  by (simp add: grouping_def)

lemma grouping_eq:
  "grouping key xs =
     map (\<lambda>k. (k, filter (\<lambda>x. key x = k) xs)) (first_occurrences (map key xs))"
proof (induction xs rule: rev_induct)
  case Nil
  show ?case by (simp add: grouping_def first_occurrences_def)
next
  case (snoc x xs)
  show ?case
  proof (cases "key x \<in> set (map key xs)")
    case True
    then show ?thesis
      by (simp add: grouping_snoc snoc.IH push_group_map first_occurrences_snoc)
  next
    case False
    let ?ks = "first_occurrences (map key xs)"
    have ne: "\<forall>y\<in>set xs. key y \<noteq> key x"
    proof
      fix y assume "y \<in> set xs"
      then have "key y \<in> set (map key xs)" by simp
      with False show "key y \<noteq> key x" by metis
    qed
    then have empty: "filter (\<lambda>y. key y = key x) xs = []"
      by (simp add: filter_empty_conv)
    have notin: "key x \<notin> set ?ks" using False by simp
    have "grouping key (xs @ [x])
        = map (\<lambda>k. (k, filter (\<lambda>x. key x = k) xs)) ?ks @ [(key x, [x])]"
      using notin by (simp add: grouping_snoc snoc.IH push_group_map)
    also have "map (\<lambda>k. (k, filter (\<lambda>x. key x = k) xs)) ?ks
        = map (\<lambda>k. (k, filter (\<lambda>y. key y = k) (xs @ [x]))) ?ks"
      using notin by (intro map_cong) auto
    also have "[(key x, [x])] = map (\<lambda>k. (k, filter (\<lambda>y. key y = k) (xs @ [x]))) [key x]"
      using empty by simp
    finally show ?thesis
      using False by (simp add: first_occurrences_snoc)
  qed
qed

lemma foldl_skip:
  "foldl (\<lambda>groups item. if P item then groups else push_group (key item) item groups) acc data
   = foldl (\<lambda>groups item. push_group (key item) item groups) acc (filter (\<lambda>item. \<not> P item) data)"
  by (induction data arbitrary: acc) simp_all

lemma weekGroups_eq:
  "weekGroups data year = grouping (\<lambda>p. weekKey year (dayjs_week (date p))) (in_year year data)"
  by (simp add: weekGroups_def grouping_def in_year_def foldl_skip)

lemma monthGroups_eq:
  "monthGroups data year = grouping (\<lambda>p. monthKey year (mon (date p))) (in_year year data)"
  by (simp add: monthGroups_def grouping_def in_year_def foldl_skip)

lemma grouping_keys: "map fst (grouping key xs) = first_occurrences (map key xs)"
  by (simp add: grouping_eq comp_def)

lemma grouping_nonempty: "e \<in> set (grouping key xs) \<Longrightarrow> snd e \<noteq> []"
  by (auto simp: grouping_eq filter_empty_conv)

lemma first_occurrences_map_inj:
  assumes "inj f"
  shows "first_occurrences (map f xs) = map f (first_occurrences xs)"
proof (induction xs rule: rev_induct)
  case Nil
  show ?case by (simp add: first_occurrences_def)
next
  case (snoc x xs)
  have "f x \<in> f ` set xs \<longleftrightarrow> x \<in> set xs"
    using assms by (auto dest: injD)
  then show ?case using snoc.IH
    by (simp add: first_occurrences_snoc)
qed

lemma sorted_first_occurrences:
  "sorted xs \<Longrightarrow> sorted (first_occurrences xs)"
proof (induction xs rule: rev_induct)
  case Nil
  show ?case by (simp add: first_occurrences_def)
next
  case (snoc x xs)
  then show ?case
    by (auto simp: first_occurrences_snoc sorted_append)
qed


lemma summarize_bucket:
  assumes "snd entry \<noteq> []"
  shows "\<exists>r. summarize entry = Inr r \<and> period r = fst entry
           \<and> totalVolume r = foldl (\<lambda>sum d. fl (sum + volume d)) 0 (snd entry)"
proof -
  from most_frequent_by_spec[OF assms, of volatilityLevel]
  obtain v where v: "getMostFrequentVolatility (snd entry) = Inr v"
    by (auto simp: getMostFrequentVolatility_def)
  from most_frequent_by_spec[OF assms, of performance]
  obtain p where p: "getMostFrequentPerformance (snd entry) = Inr p"
    by (auto simp: getMostFrequentPerformance_def)
  show ?thesis
    by (simp add: summarize_def Let_def v p)
qed

lemma map_result_total:
  "\<forall>x\<in>set xs. \<exists>y. f x = Inr y \<and> Q x y \<Longrightarrow>
   \<exists>ys. map_result f xs = Inr ys \<and> list_all2 Q xs ys"
proof (induction xs)
  case Nil
  show ?case by simp
next
  case (Cons x xs)
  then obtain y where y: "f x = Inr y" "Q x y" by auto
  from Cons obtain ys where ys: "map_result f xs = Inr ys" "list_all2 Q xs ys" by auto
  show ?case using y ys by simp
qed

lemma aggregate_groups:
  "\<exists>out. map_result summarize (grouping key xs) = Inr out
      \<and> map period out = first_occurrences (map key xs)
      \<and> map totalVolume out
          = map (\<lambda>e. foldl (\<lambda>sum d. fl (sum + volume d)) 0 (snd e)) (grouping key xs)"
proof -
  let ?Q = "\<lambda>entry r. period r = fst entry
              \<and> totalVolume r = foldl (\<lambda>sum d. fl (sum + volume d)) 0 (snd entry)"
  have "\<forall>e\<in>set (grouping key xs). \<exists>r. summarize e = Inr r \<and> ?Q e r"
    using summarize_bucket grouping_nonempty by blast
  from map_result_total[OF this]
  obtain out where out: "map_result summarize (grouping key xs) = Inr out"
    and rel: "list_all2 ?Q (grouping key xs) out" by blast
  have per: "map period out = map fst (grouping key xs)"
    using rel by (induction rule: list_all2_induct) simp_all
  have tot: "map totalVolume out
      = map (\<lambda>e. foldl (\<lambda>sum d. fl (sum + volume d)) 0 (snd e)) (grouping key xs)"
    using rel by (induction rule: list_all2_induct) simp_all
  show ?thesis using out per tot by (simp add: grouping_keys)
qed

lemma grouping_volume_sum:
  "sum_list (map (\<lambda>e. sum_list (map volume (snd e))) (grouping key xs))
     = sum_list (map volume (xs :: MarketData list))"
proof (induction xs rule: rev_induct)
  case Nil
  show ?case by (simp add: grouping_def)
next
  case (snoc x xs)
  have step: "sum_list (map (\<lambda>e. sum_list (map volume (snd e))) (push_group k x g))
      = sum_list (map (\<lambda>e. sum_list (map volume (snd e))) g) + volume x"
    for k :: 'a and g :: "('a \<times> MarketData list) list"
    by (induction g) auto
  show ?case by (simp add: grouping_snoc step snoc.IH)
qed

lemma sum_list_filter_le:
  "\<forall>x\<in>set xs. (0::real) \<le> f x \<Longrightarrow> sum_list (map f (filter P xs)) \<le> sum_list (map f xs)"
  by (induction xs) (auto intro: add_increasing)

lemma bucket_sums_exact:
  assumes nat: "\<forall>p\<in>set xs. volume p \<in> \<nat>" and bound: "sum_list (map volume xs) \<le> 2 ^ 53"
    and e: "e \<in> set (grouping key xs)"
  shows "foldl (\<lambda>sum d. fl (sum + volume d)) 0 (snd e) = sum_list (map volume (snd e))"
proof -
  from e obtain k where k: "snd e = filter (\<lambda>x. key x = k) xs"
    by (auto simp: grouping_eq)
  have "sum_list (map volume (snd e)) \<le> sum_list (map volume xs)"
    unfolding k using nat by (intro sum_list_filter_le) (simp add: Nats_nonneg)
  then have "0 + sum_list (map volume (snd e)) \<le> 2 ^ 53" using bound by simp
  moreover have "\<forall>p\<in>set (snd e). volume p \<in> \<nat>" using nat k by simp
  ultimately show ?thesis
    using fold_fl_exact[of "snd e" volume 0] by simp
qed

lemma grouping_week_plain:
  "object_entries (grouping (\<lambda>p. weekKey year (w p)) xs) = grouping (\<lambda>p. weekKey year (w p)) xs"
  by (rule object_entries_plain) (auto simp: grouping_eq weekKey_no_index)

lemma grouping_month_plain:
  "object_entries (grouping (\<lambda>p. monthKey year (m p)) xs) = grouping (\<lambda>p. monthKey year (m p)) xs"
  by (rule object_entries_plain) (auto simp: grouping_eq monthKey_no_index)

text \<open>
  Claim C3, as the code has it.  When the volumes of the points dated in the target year
  are non-negative integers whose sum is at most \<open>2^53\<close>, every addition is exact: the
  monthly aggregation returns without error and the \<open>totalVolume\<close> fields of the returned
  records add up to the sum of \<open>volume\<close> over the input points dated in that year, both
  as exact sums and added as doubles from left to right.
\<close>

theorem monthly_volume_conserved:
  assumes "\<forall>p\<in>set (in_year year data). volume p \<in> \<nat>"
    and "sum_list (map volume (in_year year data)) \<le> 2 ^ 53"
  shows "\<exists>out. aggregateDataByMonth data year = Inr out
     \<and> sum_list (map totalVolume out) = sum_list (map volume (in_year year data))
     \<and> foldl (\<lambda>sum r. fl (sum + totalVolume r)) 0 out
         = foldl (\<lambda>sum p. fl (sum + volume p)) 0 (in_year year data)"
proof -
  let ?xs = "in_year year data"
  let ?key = "\<lambda>p. monthKey year (mon (date p))"
  from aggregate_groups[of ?key ?xs]
  obtain out where out: "aggregateDataByMonth data year = Inr out"
    and tot: "map totalVolume out
          = map (\<lambda>e. foldl (\<lambda>sum d. fl (sum + volume d)) 0 (snd e)) (grouping ?key ?xs)"
    by (auto simp: aggregateDataByMonth_def monthGroups_eq grouping_month_plain)
  have "map (\<lambda>e. foldl (\<lambda>sum d. fl (sum + volume d)) 0 (snd e)) (grouping ?key ?xs)
      = map (\<lambda>e. sum_list (map volume (snd e))) (grouping ?key ?xs)"
    by (intro map_cong refl bucket_sums_exact[OF assms])
  with tot have tot': "map totalVolume out = map (\<lambda>e. sum_list (map volume (snd e))) (grouping ?key ?xs)"
    by simp
  have "sum_list (map totalVolume out) = sum_list (map (\<lambda>e. sum_list (map volume (snd e))) (grouping ?key ?xs))"
    by (simp only: tot')
  then have exact: "sum_list (map totalVolume out) = sum_list (map volume ?xs)"
    by (simp only: grouping_volume_sum)
  have nats: "\<forall>r\<in>set out. totalVolume r \<in> \<nat>"
  proof
    fix r assume "r \<in> set out"
    then have "totalVolume r \<in> set (map totalVolume out)" by simp
    then obtain e where e: "e \<in> set (grouping ?key ?xs)" "totalVolume r = sum_list (map volume (snd e))"
      unfolding tot' by auto
    from e(1) obtain k where "snd e = filter (\<lambda>x. ?key x = k) ?xs"
      by (auto simp: grouping_eq)
    then have "\<forall>p\<in>set (snd e). volume p \<in> \<nat>" using assms(1) by simp
    then show "totalVolume r \<in> \<nat>" unfolding e(2) by (rule sum_list_Nats)
  qed
  have "foldl (\<lambda>sum r. fl (sum + totalVolume r)) 0 out = 0 + sum_list (map totalVolume out)"
    using nats assms(2) exact by (intro fold_fl_exact) simp_all
  moreover have "foldl (\<lambda>sum p. fl (sum + volume p)) 0 ?xs = 0 + sum_list (map volume ?xs)"
    using assms by (intro fold_fl_exact) simp_all
  ultimately have "foldl (\<lambda>sum r. fl (sum + totalVolume r)) 0 out
         = foldl (\<lambda>sum p. fl (sum + volume p)) 0 ?xs"
    using exact by simp
  with out exact show ?thesis by blast
qed

lemma test_months_volumes: "map volume (in_year 2024 test_months) = [1000, 1500, 1200]"
  by (simp add: test_months_def in_year_def)

theorem monthly_volume_conserved_witness:
  "map volume (in_year 2024 test_months) = [1000, 1500, 1200]
   \<and> sum_list (map volume (in_year 2024 test_months)) \<le> 2 ^ 53
   \<and> (\<exists>out. aggregateDataByMonth test_months 2024 = Inr out
         \<and> sum_list (map totalVolume out) = 3700
         \<and> foldl (\<lambda>sum r. fl (sum + totalVolume r)) 0 out = 3700)"
proof -
  have nat: "\<forall>p\<in>set (in_year 2024 test_months). volume p \<in> \<nat>"
    by (simp add: test_months_def in_year_def)
  have total: "sum_list (map volume (in_year 2024 test_months)) = 3700"
    by (simp add: test_months_volumes)
  have bound: "sum_list (map volume (in_year 2024 test_months)) \<le> 2 ^ 53"
    by (simp add: total)
  have fold: "foldl (\<lambda>sum p. fl (sum + volume p)) 0 (in_year 2024 test_months) = 3700"
    by (simp add: test_months_def in_year_def)
  from monthly_volume_conserved[OF nat bound] test_months_volumes bound
  show ?thesis unfolding total fold by blast
qed

text \<open>
  The doubles 0.1 (January), 0.1 and 0.4 (February): the February total is the double
  0.5, which is not the exact sum of its two inputs, so the totals do not add up to the
  sum of the inputs; added as doubles the totals give 0.6 and the inputs
  0.6000000000000001.
\<close>

lemma fl_tenth [simp]: "fl tenth = tenth"
  unfolding tenth_def by (subst fl_normal[where e = "- 4"]) (simp_all add: round_half_even_def)

lemma fl_tenth_two_fifths [simp]: "fl (tenth + two_fifths) = 1 / 2"
  unfolding tenth_def two_fifths_def
  by (subst fl_normal[where e = "- 1"]) (simp_all add: round_half_even_def)

lemma fl_tenth_half: "fl (tenth + 1 / 2) = 5404319552844595 * 2 powi (- 53)"
  unfolding tenth_def
  by (subst fl_normal[where e = "- 1"]) (simp_all add: round_half_even_def)

lemma fl_tenth_tenth: "fl (tenth + tenth) = 7205759403792794 * 2 powi (- 55)"
  unfolding tenth_def
  by (subst fl_normal[where e = "- 3"]) (simp_all add: round_half_even_def)

lemma fl_fifth_two_fifths:
  "fl (7205759403792794 * 2 powi (- 55) + two_fifths) = 5404319552844596 * 2 powi (- 53)"
  unfolding two_fifths_def
  by (subst fl_normal[where e = "- 1"]) (simp_all add: round_half_even_def)

theorem fraction_volume_counterexample:
  "aggregateDataByMonth fraction_series 2024 =
       Inr [\<lparr>period = ''2024-01'', startDate = 1705276800000, endDate = 1705276800000,
             avgVolatility = Low, totalVolume = tenth, avgPerformance = Neutral,
             avgPriceChange = 0, avgLiquidity = 50\<rparr>,
            \<lparr>period = ''2024-02'', startDate = 1707091200000, endDate = 1707177600000,
             avgVolatility = Low, totalVolume = 1 / 2, avgPerformance = Neutral,
             avgPriceChange = 0, avgLiquidity = 50\<rparr>]
   \<and> map volume (in_year 2024 fraction_series) = [tenth, tenth, two_fifths]
   \<and> sum_list [tenth, 1 / 2] \<noteq> sum_list [tenth, tenth, two_fifths]
   \<and> foldl (\<lambda>sum v. fl (sum + v)) 0 [tenth, 1 / 2] = 5404319552844595 * 2 powi (- 53)
   \<and> foldl (\<lambda>sum v. fl (sum + v)) 0 [tenth, tenth, two_fifths] = 5404319552844596 * 2 powi (- 53)"
proof -
  have a: "aggregateDataByMonth fraction_series 2024 =
       Inr [\<lparr>period = ''2024-01'', startDate = 1705276800000, endDate = 1705276800000,
             avgVolatility = Low, totalVolume = tenth, avgPerformance = Neutral,
             avgPriceChange = 0, avgLiquidity = 50\<rparr>,
            \<lparr>period = ''2024-02'', startDate = 1707091200000, endDate = 1707177600000,
             avgVolatility = Low, totalVolume = 1 / 2, avgPerformance = Neutral,
             avgPriceChange = 0, avgLiquidity = 50\<rparr>]"
    by (simp add: fraction_series_def pt_def aggregateDataByMonth_def monthGroups_def monthKey_def
        day_number_def days_from_civil_def show_nat.simps digit_char_def object_entries_def
        is_array_index_def is_digit_def summarize_def getMostFrequentVolatility_def
        getMostFrequentPerformance_def most_frequent_by_def reduce1_def count_gt_def
        dayjs_valueOf_def padStart2_def)
  have b: "map volume (in_year 2024 fraction_series) = [tenth, tenth, two_fifths]"
    by (simp add: fraction_series_def pt_def in_year_def)
  have c: "sum_list [tenth, 1 / 2] \<noteq> sum_list [tenth, tenth, two_fifths]"
    by (simp add: tenth_def two_fifths_def)
  have d: "foldl (\<lambda>sum v. fl (sum + v)) 0 [tenth, 1 / 2] = 5404319552844595 * 2 powi (- 53)"
    by (simp add: fl_tenth_half)
  have e: "foldl (\<lambda>sum v. fl (sum + v)) 0 [tenth, tenth, two_fifths] = 5404319552844596 * 2 powi (- 53)"
    by (simp only: foldl.simps add_0 fl_tenth fl_tenth_tenth fl_fifth_two_fifths)
  from a b c d e show ?thesis by blast
qed

lemma months_sorted:
  assumes "sorted_wrt date_le (map date data)"
  shows "sorted (map (\<lambda>p. mon (date p)) (in_year year data))"
proof -
  have "sorted_wrt (\<lambda>a b. date_le (date a) (date b)) data"
    using assms by (simp add: sorted_wrt_map)
  then have "sorted_wrt (\<lambda>a b. date_le (date a) (date b)) (in_year year data)"
    unfolding in_year_def by (rule sorted_wrt_filter)
  then have "sorted_wrt (\<lambda>a b. mon (date a) \<le> mon (date b)) (in_year year data)"
  proof (rule sorted_wrt_mono_rel[rotated])
    fix a b assume "a \<in> set (in_year year data)" "b \<in> set (in_year year data)"
      and "date_le (date a) (date b)"
    then show "mon (date a) \<le> mon (date b)"
      by (auto simp: in_year_def date_le_def)
  qed
  then show ?thesis by (simp add: sorted_wrt_map)
qed

text \<open>
  Claim C4, as the code has it.  Both aggregations return one record per unit index
  that has a point in the target year: the periods are the keys of the distinct unit
  indices, in the order in which the indices are first met in the input.  For a series
  ordered ascending by date that order is ascending in month mode.  (In week mode it
  need not be: see the counterexample.)
\<close>

theorem aggregation_periods:
  "(\<exists>out. aggregateDataByWeek data year = Inr out
      \<and> map period out
          = map (weekKey year) (first_occurrences (map (\<lambda>p. dayjs_week (date p)) (in_year year data)))
      \<and> distinct (map period out))
   \<and> (\<exists>out. aggregateDataByMonth data year = Inr out
      \<and> map period out
          = map (monthKey year) (first_occurrences (map (\<lambda>p. mon (date p)) (in_year year data)))
      \<and> distinct (map period out)
      \<and> (sorted_wrt date_le (map date data) \<longrightarrow>
           sorted (first_occurrences (map (\<lambda>p. mon (date p)) (in_year year data)))))"
proof (intro conjI)
  have injw: "inj (weekKey year)" by (rule injI) (rule weekKey_inj)
  from aggregate_groups[of "\<lambda>p. weekKey year (dayjs_week (date p))" "in_year year data"]
  obtain out where out: "aggregateDataByWeek data year = Inr out"
    and per: "map period out = first_occurrences (map (\<lambda>p. weekKey year (dayjs_week (date p))) (in_year year data))"
    by (auto simp: aggregateDataByWeek_def weekGroups_eq grouping_week_plain)
  have "map (\<lambda>p. weekKey year (dayjs_week (date p))) (in_year year data)
      = map (weekKey year) (map (\<lambda>p. dayjs_week (date p)) (in_year year data))"
    by simp
  then have "map period out
      = map (weekKey year) (first_occurrences (map (\<lambda>p. dayjs_week (date p)) (in_year year data)))"
    using per first_occurrences_map_inj[OF injw] by metis
  moreover have "distinct (map period out)" by (simp add: per)
  ultimately show "\<exists>out. aggregateDataByWeek data year = Inr out
      \<and> map period out
          = map (weekKey year) (first_occurrences (map (\<lambda>p. dayjs_week (date p)) (in_year year data)))
      \<and> distinct (map period out)"
    using out by blast
next
  have injm: "inj (monthKey year)" by (rule injI) (rule monthKey_inj)
  from aggregate_groups[of "\<lambda>p. monthKey year (mon (date p))" "in_year year data"]
  obtain out where out: "aggregateDataByMonth data year = Inr out"
    and per: "map period out = first_occurrences (map (\<lambda>p. monthKey year (mon (date p))) (in_year year data))"
    by (auto simp: aggregateDataByMonth_def monthGroups_eq grouping_month_plain)
  have "map (\<lambda>p. monthKey year (mon (date p))) (in_year year data)
      = map (monthKey year) (map (\<lambda>p. mon (date p)) (in_year year data))"
    by simp
  then have "map period out
      = map (monthKey year) (first_occurrences (map (\<lambda>p. mon (date p)) (in_year year data)))"
    using per first_occurrences_map_inj[OF injm] by metis
  moreover have "distinct (map period out)" by (simp add: per)
  moreover have "sorted_wrt date_le (map date data) \<longrightarrow>
           sorted (first_occurrences (map (\<lambda>p. mon (date p)) (in_year year data)))"
    using months_sorted sorted_first_occurrences by blast
  ultimately show "\<exists>out. aggregateDataByMonth data year = Inr out
      \<and> map period out
          = map (monthKey year) (first_occurrences (map (\<lambda>p. mon (date p)) (in_year year data)))
      \<and> distinct (map period out)
      \<and> (sorted_wrt date_le (map date data) \<longrightarrow>
           sorted (first_occurrences (map (\<lambda>p. mon (date p)) (in_year year data))))"
    using out by blast
qed

lemmas eval_defs = weekGroups_def monthGroups_def weekKey_def monthKey_def dayjs_week_def day_number_def
      days_from_civil_def show_nat.simps digit_char_def object_entries_def is_array_index_def
      is_digit_def summarize_def getMostFrequentVolatility_def getMostFrequentPerformance_def
      most_frequent_by_def reduce1_def count_gt_def dayjs_valueOf_def padStart2_def

theorem aggregation_periods_witness:
  "sorted_wrt date_le (map date test_months)
   \<and> sorted (first_occurrences (map (\<lambda>p. mon (date p)) (in_year 2024 test_months)))
   \<and> (\<exists>out. aggregateDataByMonth test_months 2024 = Inr out
         \<and> map period out = [''2024-01'', ''2024-02''])
   \<and> (\<exists>out. aggregateDataByWeek test_months 2024 = Inr out
         \<and> map period out = [''2024-W3'', ''2024-W6''])"
proof -
  have s: "sorted_wrt date_le (map date test_months)"
    by (simp add: test_months_def date_le_def)
  have m: "first_occurrences (map (\<lambda>p. mon (date p)) (in_year 2024 test_months)) = [1, 2]"
    by (simp add: test_months_def in_year_def first_occurrences_def)
  have w: "first_occurrences (map (\<lambda>p. dayjs_week (date p)) (in_year 2024 test_months)) = [3, 6]"
    by (simp add: test_months_def in_year_def first_occurrences_def dayjs_week_def day_number_def
        days_from_civil_def)
  have k: "map (monthKey 2024) [1, 2] = [''2024-01'', ''2024-02'']"
    "map (weekKey 2024) [3, 6] = [''2024-W3'', ''2024-W6'']"
    by (simp_all add: monthKey_def weekKey_def show_nat.simps digit_char_def padStart2_def)
  from aggregation_periods[of test_months 2024] s show ?thesis
    unfolding m w k by auto
qed

text \<open>
  Monday 2024-12-23 lies in week 52 and Monday 2024-12-30 in week 1 (its week holds
  2025-01-01): the series is ascending by date, the returned records are in the order
  week 52, week 1.
\<close>

theorem week_order_counterexample:
  "sorted_wrt date_le (map date december_series)
   \<and> map (\<lambda>p. dayjs_week (date p)) december_series = [52, 1]
   \<and> aggregateDataByWeek december_series 2024 =
       Inr [\<lparr>period = ''2024-W52'', startDate = 1734912000000, endDate = 1734912000000,
             avgVolatility = Low, totalVolume = 1000, avgPerformance = Neutral,
             avgPriceChange = 0, avgLiquidity = 50\<rparr>,
            \<lparr>period = ''2024-W1'', startDate = 1735516800000, endDate = 1735516800000,
             avgVolatility = Low, totalVolume = 1000, avgPerformance = Neutral,
             avgPriceChange = 0, avgLiquidity = 50\<rparr>]"
  by (simp add: december_series_def pt_def date_le_def aggregateDataByWeek_def eval_defs)

section \<open>Empty and short series\<close>

text \<open>
  Claim C9.  On the empty series the two aggregations return the empty list without
  raising, and so do pattern detection and anomaly detection; pattern detection
  returns the empty list on every series of fewer than 30 points and anomaly detection
  on every series of fewer than 10 points.
\<close>

theorem empty_and_short_series:
  "aggregateDataByWeek [] year = Inr []
   \<and> aggregateDataByMonth [] year = Inr []
   \<and> seasonalPatterns [] = []
   \<and> anomalies [] = []
   \<and> (length marketData < 30 \<longrightarrow> seasonalPatterns marketData = [])
   \<and> (length marketData < 10 \<longrightarrow> anomalies marketData = [])"
  by (simp add: aggregateDataByWeek_def aggregateDataByMonth_def weekGroups_def monthGroups_def
      object_entries_def seasonalPatterns_def anomalies_def)

theorem empty_and_short_series_witness:
  "length (replicate 29 p0) < 30 \<and> seasonalPatterns (replicate 29 p0) = []
   \<and> length (replicate 9 p0) < 10 \<and> anomalies (replicate 9 p0) = []"
  using empty_and_short_series[of 2024 "replicate 29 p0"] empty_and_short_series[of 2024 "replicate 9 p0"]
  by simp

section \<open>Properties of the anomaly detector\<close>

lemma volume_rule_flagged:
  "i < length md \<Longrightarrow> set (volume_rule md (md ! i)) \<subseteq> set (flagged md)"
  by (auto simp: flagged_def detect_def intro!: bexI[of _ i])

lemma anomalies_subset: "set (anomalies md) \<subseteq> set (flagged md)"
  by (auto simp: anomalies_def dest: in_set_takeD)

lemma anomalies_all: "10 \<le> length md \<Longrightarrow> length (flagged md) \<le> 10 \<Longrightarrow> set (anomalies md) = set (flagged md)"
  by (simp add: anomalies_def)

lemma flagged_volume_spike:
  assumes "a \<in> set (flagged md)" "anomaly_type a = VolumeSpike"
  shows "\<exists>i<length md. a \<in> set (volume_rule md (md ! i))"
proof -
  from assms(1) obtain i where i: "i < length md" "a \<in> set (detect md i)"
    by (auto simp: flagged_def)
  then have "a \<in> set (volume_rule md (md ! i))"
    using assms(2)
    by (auto simp: detect_def volatility_rule_def gap_rule_def Let_def split: if_splits)
  with i show ?thesis by blast
qed

lemma sum_list_const:
  "\<forall>p\<in>set md. f p = (c::real) \<Longrightarrow> sum_list (map f md) = real (length md) * c"
  by (induction md) (simp_all add: algebra_simps)

lemma constant_volume_mean:
  assumes "0 < length md" and "\<forall>p\<in>set md. volume p = real c" and "length md * c \<le> 2 ^ 53"
  shows "avgVolume md = real c"
proof -
  have total: "sum_list (map volume md) = real (length md * c)"
    using sum_list_const[OF assms(2)] by simp
  have "real (length md * c) \<le> real (2 ^ 53)"
    using assms(3) by (simp only: of_nat_le_iff)
  then have bound: "0 + sum_list (map volume md) \<le> 2 ^ 53"
    using total by simp
  have "foldl (\<lambda>sum d. fl (sum + volume d)) 0 md = 0 + sum_list (map volume md)"
    using assms(2) bound by (intro fold_fl_exact) simp_all
  then have fold: "foldl (\<lambda>sum d. fl (sum + volume d)) 0 md = real (length md) * real c"
    using total by simp
  have "1 \<le> length md" using assms(1) by linarith
  then have "1 * c \<le> length md * c" by (rule mult_le_mono1)
  then have "c \<le> 2 ^ 53" using assms(3) by linarith
  then have "fl (real c) = real c" by (rule fl_nat)
  then show ?thesis using assms(1) by (simp add: avgVolume_def fold)
qed

text \<open>
  Claim C6, as the code has it.  In a series of at least 10 points whose volumes are all
  equal to one non-negative integer \<open>c\<close>, with \<open>n * c\<close> at most \<open>2^53\<close> for the \<open>n\<close> points
  of the series, the mean is computed exactly: it is \<open>c\<close>, the standard deviation of the
  volume is zero, the z-score of every point is the NaN of \<open>0 / 0\<close> (no error is raised),
  no point is flagged as a volume spike, and neither the collected nor the returned
  anomalies contain a volume spike.
\<close>

theorem constant_volume_no_spike:
  assumes "10 \<le> length marketData" and "\<forall>p\<in>set marketData. volume p = real c"
    and "length marketData * c \<le> 2 ^ 53"
  shows "avgVolume marketData = real c
    \<and> volumeStdDev marketData = 0
    \<and> (\<forall>p\<in>set marketData. volumeZScore marketData p = NaN \<and> volume_rule marketData p = [])
    \<and> (\<forall>a\<in>set (flagged marketData). anomaly_type a \<noteq> VolumeSpike)
    \<and> (\<forall>a\<in>set (anomalies marketData). anomaly_type a \<noteq> VolumeSpike)"
proof -
  have len: "0 < length marketData" using assms(1) by linarith
  have avg: "avgVolume marketData = real c"
    by (rule constant_volume_mean[OF len assms(2,3)])
  have "foldl (\<lambda>sum d. fl (sum + fl ((fl (volume d - avgVolume marketData))\<^sup>2))) 0 marketData = 0"
    by (rule fold_fl_zero) (simp add: avg assms(2))
  then have sd: "volumeStdDev marketData = 0"
    by (simp add: volumeStdDev_def)
  have z: "\<forall>p\<in>set marketData. volumeZScore marketData p = NaN \<and> volume_rule marketData p = []"
    by (simp add: volumeZScore_def volume_rule_def sd avg assms(2) fdiv_def)
  have fl: "\<forall>a\<in>set (flagged marketData). anomaly_type a \<noteq> VolumeSpike"
  proof
    fix a assume a: "a \<in> set (flagged marketData)"
    show "anomaly_type a \<noteq> VolumeSpike"
    proof
      assume "anomaly_type a = VolumeSpike"
      from flagged_volume_spike[OF a this] z show False by auto
    qed
  qed
  then have "\<forall>a\<in>set (anomalies marketData). anomaly_type a \<noteq> VolumeSpike"
    using anomalies_subset by blast
  with avg sd z fl show ?thesis by blast
qed

theorem constant_volume_no_spike_witness:
  "10 \<le> length (replicate 10 p0)
   \<and> volume p0 = real 1000
   \<and> length (replicate 10 p0) * 1000 \<le> 2 ^ 53
   \<and> avgVolume (replicate 10 p0) = 1000
   \<and> volumeStdDev (replicate 10 p0) = 0
   \<and> volumeZScore (replicate 10 p0) p0 = NaN
   \<and> volume_rule (replicate 10 p0) p0 = []"
proof -
  have v: "\<forall>p\<in>set (replicate 10 p0). volume p = real 1000"
    by (simp add: p0_def pt_def)
  have b: "length (replicate 10 p0) * 1000 \<le> 2 ^ 53" by simp
  have l: "10 \<le> length (replicate 10 p0)" by simp
  have "volume p0 = real 1000" by (simp add: p0_def pt_def)
  with constant_volume_no_spike[OF l v b] b show ?thesis by simp
qed

text \<open>
  Ten points with the same volume \<open>tiny_volume\<close>.  The ten additions round, the mean
  comes out one unit in the last place below the volume, the deviation \<open>2^-656\<close> is
  positive and its square underflows to 0: the standard deviation is 0, the z-score of
  every point is \<open>+Infinity\<close>, and every point is returned as a volume spike of severity
  high.
\<close>

lemma tiny_steps:
  "fl (0 + tiny_volume) = tiny_volume"
  "fl (tiny_volume + tiny_volume) = 7205759403792794 * 2 powi (- 655)"
  "fl (7205759403792794 * 2 powi (- 655) + tiny_volume) = 5404319552844596 * 2 powi (- 654)"
  "fl (5404319552844596 * 2 powi (- 654) + tiny_volume) = 7205759403792794 * 2 powi (- 654)"
  "fl (7205759403792794 * 2 powi (- 654) + tiny_volume) = 4503599627370496 * 2 powi (- 653)"
  "fl (4503599627370496 * 2 powi (- 653) + tiny_volume) = 5404319552844595 * 2 powi (- 653)"
  "fl (5404319552844595 * 2 powi (- 653) + tiny_volume) = 6305039478318694 * 2 powi (- 653)"
  "fl (6305039478318694 * 2 powi (- 653) + tiny_volume) = 7205759403792793 * 2 powi (- 653)"
  "fl (7205759403792793 * 2 powi (- 653) + tiny_volume) = 8106479329266892 * 2 powi (- 653)"
  "fl (8106479329266892 * 2 powi (- 653) + tiny_volume) = 9007199254740991 * 2 powi (- 653)"
  unfolding tiny_volume_def
  subgoal by (subst fl_normal[where e = "- 604"]) (simp_all add: round_half_even_def)
  subgoal by (subst fl_normal[where e = "- 603"]) (simp_all add: round_half_even_def)
  subgoal by (subst fl_normal[where e = "- 602"]) (simp_all add: round_half_even_def)
  subgoal by (subst fl_normal[where e = "- 602"]) (simp_all add: round_half_even_def)
  subgoal by (subst fl_normal[where e = "- 601"]) (simp_all add: round_half_even_def)
  subgoal by (subst fl_normal[where e = "- 601"]) (simp_all add: round_half_even_def)
  subgoal by (subst fl_normal[where e = "- 601"]) (simp_all add: round_half_even_def)
  subgoal by (subst fl_normal[where e = "- 601"]) (simp_all add: round_half_even_def)
  subgoal by (subst fl_normal[where e = "- 601"]) (simp_all add: round_half_even_def)
  subgoal by (subst fl_normal[where e = "- 601"]) (simp_all add: round_half_even_def)
  done

lemma tiny_volumes:
  "map volume tiny_series =
     [tiny_volume, tiny_volume, tiny_volume, tiny_volume, tiny_volume,
      tiny_volume, tiny_volume, tiny_volume, tiny_volume, tiny_volume]"
  by (simp add: tiny_series_def pt_def)

lemma tiny_sum:
  "foldl (\<lambda>sum d. fl (sum + volume d)) 0 tiny_series = 9007199254740991 * 2 powi (- 653)"
proof -
  have "foldl (\<lambda>sum d. fl (sum + volume d)) 0 tiny_series
      = foldl (\<lambda>sum v. fl (sum + v)) 0 (map volume tiny_series)"
    by (simp only: foldl_map)
  also have "\<dots> = 9007199254740991 * 2 powi (- 653)"
    by (simp only: tiny_volumes foldl.simps tiny_steps)
  finally show ?thesis .
qed

lemma tiny_mean: "avgVolume tiny_series = 7205759403792793 * 2 powi (- 656)"
proof -
  have "real (length tiny_series) = 10" by (simp add: tiny_series_def)
  moreover have "fl (9007199254740991 * 2 powi (- 653) / 10) = 7205759403792793 * 2 powi (- 656)"
    by (subst fl_normal[where e = "- 604"]) (simp_all add: round_half_even_def)
  ultimately show ?thesis by (simp only: avgVolume_def tiny_sum)
qed

lemma tiny_deviation: "fl (tiny_volume - avgVolume tiny_series) = 2 powi (- 656)"
  unfolding tiny_mean tiny_volume_def
  by (subst fl_normal[where e = "- 656"]) (simp_all add: round_half_even_def)

lemma tiny_square: "fl ((2 powi (- 656))\<^sup>2) = 0"
proof -
  have "((2::real) powi (- 656))\<^sup>2 = 2 powi (- 1312)"
    by (simp add: power2_eq_square flip: power_int_add)
  moreover have "(2::real) powi (- 1312) = 2 powi (- 238) * 2 powi (- 1074)"
    by (simp flip: power_int_add)
  moreover have "(2::real) powi (- 238) \<le> 2 powi (- 2)"
    by (rule power_int_increasing) simp_all
  ultimately show ?thesis
    by (intro fl_underflow) (simp add: abs_mult)
qed

lemma tiny_stddev: "volumeStdDev tiny_series = 0"
proof -
  have "\<forall>p\<in>set tiny_series. fl ((fl (volume p - avgVolume tiny_series))\<^sup>2) = 0"
  proof
    fix p assume "p \<in> set tiny_series"
    then have "volume p \<in> set (map volume tiny_series)" by simp
    then have "volume p = tiny_volume" unfolding tiny_volumes by simp
    then show "fl ((fl (volume p - avgVolume tiny_series))\<^sup>2) = 0"
      by (simp only: tiny_deviation tiny_square)
  qed
  then have "foldl (\<lambda>sum d. fl (sum + fl ((fl (volume d - avgVolume tiny_series))\<^sup>2))) 0 tiny_series = 0"
    by (rule fold_fl_zero)
  then show ?thesis by (simp add: volumeStdDev_def)
qed

lemma tiny_rule:
  "volume p = tiny_volume \<Longrightarrow>
   volumeZScore tiny_series p = PosInf
   \<and> volume_rule tiny_series p =
       [\<lparr>anomaly_date = date p, anomaly_type = VolumeSpike, severity = SevHigh,
         anomaly_value = tiny_volume\<rparr>]"
  by (simp add: volumeZScore_def volume_rule_def tiny_stddev tiny_deviation fdiv_def)

lemma tiny_points:
  "p \<in> set tiny_series \<Longrightarrow> volume p = tiny_volume \<and> volatilityLevel p = Low \<and> priceChange p = 0"
  by (auto simp: tiny_series_def pt_def)

lemma tiny_detect:
  assumes "i < length tiny_series"
  shows "detect tiny_series i = volume_rule tiny_series (tiny_series ! i)"
proof -
  have p: "priceChange (tiny_series ! i) = 0" "volatilityLevel (tiny_series ! i) = Low"
    using tiny_points[of "tiny_series ! i"] assms by simp_all
  have "i - Suc 0 < length tiny_series" using assms by simp
  then have q: "priceChange (tiny_series ! (i - Suc 0)) = 0"
    using tiny_points[of "tiny_series ! (i - Suc 0)"] by simp
  show ?thesis
    by (simp add: detect_def volatility_rule_def gap_rule_def p q)
qed

lemma tiny_flagged:
  "flagged tiny_series =
     map (\<lambda>d. \<lparr>anomaly_date = \<lparr>yr = 2024, mon = 1, dom = d\<rparr>, anomaly_type = VolumeSpike,
               severity = SevHigh, anomaly_value = tiny_volume\<rparr>)
       [1, 2, 3, 4, 5, 8, 9, 10, 11, 12]"
proof -
  have rule: "volume_rule tiny_series (pt y m d tiny_volume 0) =
       [\<lparr>anomaly_date = \<lparr>yr = y, mon = m, dom = d\<rparr>, anomaly_type = VolumeSpike,
         severity = SevHigh, anomaly_value = tiny_volume\<rparr>]" for y m d
    using tiny_rule[of "pt y m d tiny_volume 0"] by (simp add: pt_def)
  have "map (detect tiny_series) [0..<length tiny_series]
      = map (\<lambda>i. volume_rule tiny_series (tiny_series ! i)) [0..<length tiny_series]"
    by (intro map_cong refl tiny_detect) simp
  also have "\<dots> = map (volume_rule tiny_series) (map ((!) tiny_series) [0..<length tiny_series])"
    by simp
  also have "\<dots> = map (volume_rule tiny_series) tiny_series"
    by (simp only: map_nth)
  finally have "flagged tiny_series = concat (map (volume_rule tiny_series) tiny_series)"
    by (simp only: flagged_def)
  also have "\<dots> = map (\<lambda>d. \<lparr>anomaly_date = \<lparr>yr = 2024, mon = 1, dom = d\<rparr>, anomaly_type = VolumeSpike,
               severity = SevHigh, anomaly_value = tiny_volume\<rparr>)
       [1, 2, 3, 4, 5, 8, 9, 10, 11, 12]"
    by (subst (2) tiny_series_def) (simp add: rule)
  finally show ?thesis .
qed

theorem tiny_volume_counterexample:
  "length tiny_series = 10
   \<and> map volume tiny_series =
      [tiny_volume, tiny_volume, tiny_volume, tiny_volume, tiny_volume,
       tiny_volume, tiny_volume, tiny_volume, tiny_volume, tiny_volume]
   \<and> avgVolume tiny_series = 7205759403792793 * 2 powi (- 656)
   \<and> volumeStdDev tiny_series = 0
   \<and> volumeZScore tiny_series (tiny_series ! 0) = PosInf
   \<and> anomalies tiny_series =
       map (\<lambda>d. \<lparr>anomaly_date = \<lparr>yr = 2024, mon = 1, dom = d\<rparr>, anomaly_type = VolumeSpike,
                 severity = SevHigh, anomaly_value = tiny_volume\<rparr>)
         [12, 11, 10, 9, 8, 5, 4, 3, 2, 1]"
proof -
  have l: "length tiny_series = 10" by (simp add: tiny_series_def)
  have z: "volumeZScore tiny_series (tiny_series ! 0) = PosInf"
    using tiny_rule[of "tiny_series ! 0"] by (simp add: tiny_series_def pt_def)
  have a: "anomalies tiny_series =
       map (\<lambda>d. \<lparr>anomaly_date = \<lparr>yr = 2024, mon = 1, dom = d\<rparr>, anomaly_type = VolumeSpike,
                 severity = SevHigh, anomaly_value = tiny_volume\<rparr>)
         [12, 11, 10, 9, 8, 5, 4, 3, 2, 1]"
    by (simp add: anomalies_def l tiny_flagged dayjs_valueOf_def day_number_def days_from_civil_def)
  from l tiny_volumes tiny_mean tiny_stddev z a show ?thesis by blast
qed

text \<open>
  Claim C5.  In a series of at least 10 points with a positive standard deviation of the
  volume, a point with z-score \<open>z\<close> is not flagged as a volume spike when \<open>z \<le> 2\<close> (so
  not at exactly 2.0); it is flagged with severity low when \<open>2 < z \<le> 2.5\<close> (so at
  2.01), medium when \<open>2.5 < z \<le> 3\<close> and high when \<open>z > 3\<close>.  A flagged point is in the
  collected anomalies, and in the returned list when at most 10 anomalies were collected
  (the returned list keeps the 10 most recent).
\<close>

theorem volume_spike_thresholds:
  assumes "10 \<le> length marketData" and "0 < volumeStdDev marketData" and "i < length marketData"
    and "volumeZScore marketData (marketData ! i) = Num z"
  shows "z = fl (fl (volume (marketData ! i) - avgVolume marketData) / volumeStdDev marketData)
    \<and> (z \<le> 2 \<longrightarrow> volume_rule marketData (marketData ! i) = [])
    \<and> (2 < z \<and> z \<le> 2.5 \<longrightarrow> volume_rule marketData (marketData ! i) =
          [\<lparr>anomaly_date = date (marketData ! i), anomaly_type = VolumeSpike,
            severity = SevLow, anomaly_value = volume (marketData ! i)\<rparr>])
    \<and> (2.5 < z \<and> z \<le> 3 \<longrightarrow> volume_rule marketData (marketData ! i) =
          [\<lparr>anomaly_date = date (marketData ! i), anomaly_type = VolumeSpike,
            severity = SevMedium, anomaly_value = volume (marketData ! i)\<rparr>])
    \<and> (3 < z \<longrightarrow> volume_rule marketData (marketData ! i) =
          [\<lparr>anomaly_date = date (marketData ! i), anomaly_type = VolumeSpike,
            severity = SevHigh, anomaly_value = volume (marketData ! i)\<rparr>])
    \<and> set (volume_rule marketData (marketData ! i)) \<subseteq> set (flagged marketData)
    \<and> (length (flagged marketData) \<le> 10 \<longrightarrow>
          set (volume_rule marketData (marketData ! i)) \<subseteq> set (anomalies marketData))"
proof -
  let ?p = "marketData ! i"
  have z: "z = fl (fl (volume ?p - avgVolume marketData) / volumeStdDev marketData)"
    using assms(2,4) by (simp add: volumeZScore_def fdiv_def)
  have rule: "volume_rule marketData ?p =
      (if 2 < z
       then [\<lparr>anomaly_date = date ?p, anomaly_type = VolumeSpike,
              severity = (if 3 < z then SevHigh else if 2.5 < z then SevMedium else SevLow),
              anomaly_value = volume ?p\<rparr>]
       else [])"
    by (simp add: volume_rule_def assms(4) Let_def)
  have none: "z \<le> 2 \<longrightarrow> volume_rule marketData ?p = []"
    by (simp add: rule)
  have low: "2 < z \<and> z \<le> 2.5 \<longrightarrow> volume_rule marketData ?p =
          [\<lparr>anomaly_date = date ?p, anomaly_type = VolumeSpike,
            severity = SevLow, anomaly_value = volume ?p\<rparr>]"
    unfolding rule by auto
  have med: "2.5 < z \<and> z \<le> 3 \<longrightarrow> volume_rule marketData ?p =
          [\<lparr>anomaly_date = date ?p, anomaly_type = VolumeSpike,
            severity = SevMedium, anomaly_value = volume ?p\<rparr>]"
    unfolding rule by auto
  have hi: "3 < z \<longrightarrow> volume_rule marketData ?p =
          [\<lparr>anomaly_date = date ?p, anomaly_type = VolumeSpike,
            severity = SevHigh, anomaly_value = volume ?p\<rparr>]"
    unfolding rule by auto
  have sub: "set (volume_rule marketData ?p) \<subseteq> set (flagged marketData)"
    by (rule volume_rule_flagged[OF assms(3)])
  have out: "length (flagged marketData) \<le> 10 \<longrightarrow>
          set (volume_rule marketData ?p) \<subseteq> set (anomalies marketData)"
    using sub anomalies_all[OF assms(1)] by auto
  from z none low med hi sub out show ?thesis by blast
qed

lemma sqrt_16: "sqrt 16 = 4"
  by (rule real_sqrt_unique) simp_all

lemma sqrt_90000: "sqrt 90000 = 300"
  by (rule real_sqrt_unique) simp_all

lemma z2_stats: "avgVolume series_z2 = 2" "volumeStdDev series_z2 = 4"
proof -
  show a: "avgVolume series_z2 = 2"
    by (simp add: avgVolume_def series_z2_def pt_def)
  show "volumeStdDev series_z2 = 4"
    unfolding volumeStdDev_def a by (simp add: series_z2_def pt_def sqrt_16 fl_minus)
qed

lemma z201_stats: "avgVolume series_z201 = 600" "volumeStdDev series_z201 = 300"
proof -
  show a: "avgVolume series_z201 = 600"
    by (simp add: avgVolume_def series_z201_def pt_def)
  show "volumeStdDev series_z201 = 300"
    unfolding volumeStdDev_def a by (simp add: series_z201_def pt_def sqrt_90000 fl_minus)
qed

theorem volume_spike_thresholds_witness:
  "10 \<le> length series_z2 \<and> 0 < volumeStdDev series_z2
   \<and> volumeZScore series_z2 (series_z2 ! 8) = Num 2
   \<and> volume_rule series_z2 (series_z2 ! 8) = []
   \<and> 10 \<le> length series_z201 \<and> 0 < volumeStdDev series_z201
   \<and> volumeZScore series_z201 (series_z201 ! 0) = Num (fl (201 / 100))
   \<and> fl (201 / 100) = 4526117625507348 / 2 ^ 51
   \<and> volume_rule series_z201 (series_z201 ! 0) =
        [\<lparr>anomaly_date = \<lparr>yr = 2024, mon = 1, dom = 1\<rparr>, anomaly_type = VolumeSpike,
          severity = SevLow, anomaly_value = 1203\<rparr>]"
proof -
  have l: "10 \<le> length series_z2" "8 < length series_z2" "10 \<le> length series_z201" "0 < length series_z201"
    by (simp_all add: series_z2_def series_z201_def)
  have p: "series_z2 ! 8 = pt 2024 1 11 10 0" "series_z201 ! 0 = pt 2024 1 1 1203 0"
    by (simp_all add: series_z2_def series_z201_def)
  have sd: "0 < volumeStdDev series_z2" "0 < volumeStdDev series_z201"
    by (simp_all add: z2_stats z201_stats)
  have z2: "volumeZScore series_z2 (series_z2 ! 8) = Num 2"
    by (simp add: volumeZScore_def fdiv_def z2_stats p pt_def)
  have z201: "volumeZScore series_z201 (series_z201 ! 0) = Num (fl (201 / 100))"
    by (simp add: volumeZScore_def fdiv_def z201_stats p pt_def)
  have a: "volume_rule series_z2 (series_z2 ! 8) = []"
    using volume_spike_thresholds[OF l(1) sd(1) l(2) z2] by simp
  have r: "2 < fl (201 / 100)" "fl (201 / 100) \<le> 2.5"
    by (simp_all add: fl_201)
  have b: "volume_rule series_z201 (series_z201 ! 0) =
        [\<lparr>anomaly_date = \<lparr>yr = 2024, mon = 1, dom = 1\<rparr>, anomaly_type = VolumeSpike,
          severity = SevLow, anomaly_value = 1203\<rparr>]"
    using volume_spike_thresholds[OF l(3) sd(2) l(4) z201] r by (simp add: p pt_def)
  from l sd z2 z201 a b fl_201 show ?thesis by blast
qed

section \<open>Properties of the seasonal pattern detector\<close>

subsection \<open>The January bucket\<close>




subsection \<open>The detector on the two sample series\<close>

lemma grouping_zip:
  "foldl (\<lambda>acc d. push_group (key d) d acc) acc0 xs
   = foldl (\<lambda>acc kd. push_group (fst kd) (snd kd) acc) acc0 (zip (map key xs) xs)"
  by (induction xs arbitrary: acc0) simp_all

lemma jan_weekly_keys: "map (\<lambda>d. show_nat (dayjs_day (date d))) january_series =
   [''1'', ''2'', ''4'', ''5'', ''6'', ''0'', ''1'', ''2'', ''3'', ''4'', ''5'', ''6'', ''0'', ''1'', ''2'',
    ''3'', ''4'', ''5'', ''6'', ''0'', ''1'', ''2'', ''3'', ''4'', ''5'', ''6'', ''0'', ''1'', ''2'', ''4'']"
  by (simp add: january_series_def pt_def dayjs_day_def day_number_def days_from_civil_def
      show_nat.simps digit_char_def)

lemma jan_weekly_groups: "weeklyData january_series =
  [(''1'', [pt 2023 1 2 1000 3, pt 2024 2 5 1000 0, pt 2024 2 12 1000 0, pt 2024 2 19 1000 0, pt 2024 2 26 1000 0]),
   (''2'', [pt 2024 1 2 1000 3, pt 2024 2 6 1000 0, pt 2024 2 13 1000 0, pt 2024 2 20 1000 0, pt 2024 2 27 1000 0]),
   (''4'', [pt 2024 2 1 1000 0, pt 2024 2 8 1000 0, pt 2024 2 15 1000 0, pt 2024 2 22 1000 0, pt 2025 1 2 1000 3]),
   (''5'', [pt 2024 2 2 1000 0, pt 2024 2 9 1000 0, pt 2024 2 16 1000 0, pt 2024 2 23 1000 0]),
   (''6'', [pt 2024 2 3 1000 0, pt 2024 2 10 1000 0, pt 2024 2 17 1000 0, pt 2024 2 24 1000 0]),
   (''0'', [pt 2024 2 4 1000 0, pt 2024 2 11 1000 0, pt 2024 2 18 1000 0, pt 2024 2 25 1000 0]),
   (''3'', [pt 2024 2 7 1000 0, pt 2024 2 14 1000 0, pt 2024 2 21 1000 0])]"
  unfolding weeklyData_def grouping_zip jan_weekly_keys
  by (simp add: january_series_def)


lemma jan_weekly_entries: "map fst (object_entries (weeklyData january_series)) =
   [''0'', ''1'', ''2'', ''3'', ''4'', ''5'', ''6'']"
  unfolding jan_weekly_groups
  by (simp add: object_entries_def is_array_index_def is_digit_def parse_nat_def digit_val_def
      show_nat.simps digit_char_def)

















end
